theory Spec2Isabelle
  imports Complex_Main "HOL-Library.Sublist" "HOL-Library.List_Lexorder" "HOL-Library.Char_ord"
begin

section \<open>Python values shared by the scripts\<close>

text \<open>
  The repository is a set of Python scripts that pull Optimizely export files from S3
  (\<^verbatim>\<open>extract_optimizely_s3.py\<close>, \<^verbatim>\<open>load_optimizely_decisions.py\<close>,
  \<^verbatim>\<open>load_optimizely_decisions_v2.py\<close>) and load staged Parquet files into BigQuery
  (\<^verbatim>\<open>stage_and_load_to_bq_gcs.py\<close>, \<^verbatim>\<open>stage_and_load_to_bq_local_v2.py\<close>).
  Exceptions are values: a function that can raise returns \<open>py_exn + 'a\<close>, with
  \<open>Inl\<close> the exception. Strings are \<open>char list\<close>s; \<^verbatim>\<open>str.endswith\<close> and
  \<^verbatim>\<open>str.startswith\<close> are the suffix and prefix orders.
\<close>

datatype py_exn =
    ValueError string
  | RuntimeError string
  | OSError string
  | OverflowError
  | KeyError string
  | ClientError string
  | IndexError
  | KeyboardInterrupt
  | SystemExit

text \<open>
  \<^verbatim>\<open>isinstance(e, Exception)\<close>: what an \<^verbatim>\<open>except Exception\<close> clause catches.
  \<^verbatim>\<open>KeyboardInterrupt\<close> and \<^verbatim>\<open>SystemExit\<close> derive from \<^verbatim>\<open>BaseException\<close> only.
\<close>

fun is_Exception :: "py_exn \<Rightarrow> bool" where
  "is_Exception KeyboardInterrupt = False"
| "is_Exception SystemExit = False"
| "is_Exception _ = True"

definition endswith :: "string \<Rightarrow> string \<Rightarrow> bool" where
  "endswith s t = suffix t s"

definition startswith :: "string \<Rightarrow> string \<Rightarrow> bool" where
  "startswith s t = prefix t s"


section \<open>Progress formatter: \<^verbatim>\<open>human_size\<close>\<close>

text \<open>
  The formatter works in floating point, and two library parts of it are parameters:
  \<open>math_log n\<close> is the float \<^verbatim>\<open>math.log(n, 1024)\<close> returns for a positive integer, read
  as the real number it denotes, and \<open>fmt_2f n i\<close> is the text of
  \<^verbatim>\<open>f"{n / (1024 ** i):.2f}"\<close>, a float division and its formatting. On an integer that
  is not positive \<^verbatim>\<open>math.log\<close> raises \<^verbatim>\<open>ValueError\<close>.
\<close>

record pylib =
  math_log :: "int \<Rightarrow> real"
  fmt_2f :: "int \<Rightarrow> int \<Rightarrow> string"

definition py_math_log :: "pylib \<Rightarrow> int \<Rightarrow> py_exn + real" where
  "py_math_log lib n =
     (if n \<le> 0 then Inl (ValueError ''math domain error'') else Inr (math_log lib n))"

text \<open>
  \<^verbatim>\<open>xs[i]\<close> on a list: an index from \<open>0\<close> counts from the front, a negative one from the
  end, any other raises \<^verbatim>\<open>IndexError\<close>.
\<close>

definition py_getitem :: "'a list \<Rightarrow> int \<Rightarrow> py_exn + 'a" where
  "py_getitem xs i =
     (if 0 \<le> i \<and> i < int (length xs) then Inr (xs ! nat i)
      else if - int (length xs) \<le> i \<and> i < 0 then Inr (xs ! nat (int (length xs) + i))
      else Inl IndexError)"

definition units :: "string list" where
  "units = [''B'', ''KB'', ''MB'', ''GB'', ''TB'']"

text \<open>
  \<^verbatim>\<open>human_size\<close> of \<^verbatim>\<open>extract_optimizely_s3.py\<close>:
  \<^verbatim>\<open>if n == 0: return "0B"\<close> (the test for \<^verbatim>\<open>None\<close> before it never fires on an
  integer), then
  \<^verbatim>\<open>i = int(math.floor(math.log(n, 1024)))\<close> and
  \<^verbatim>\<open>return f"{n / (1024 ** i):.2f}{units[i]}"\<close>.
\<close>

definition human_size_extract :: "pylib \<Rightarrow> int \<Rightarrow> py_exn + string" where
  "human_size_extract lib n =
     (if n = 0 then Inr ''0B''
      else (case py_math_log lib n of
              Inl e \<Rightarrow> Inl e
            | Inr x \<Rightarrow>
                (let i = \<lfloor>x\<rfloor>
                 in case py_getitem units i of
                      Inl e \<Rightarrow> Inl e
                    | Inr u \<Rightarrow> Inr (fmt_2f lib n i @ u))))"

text \<open>
  \<^verbatim>\<open>human_size\<close> of \<^verbatim>\<open>load_optimizely_decisions.py\<close> and of the v2 script:
  \<^verbatim>\<open>if not n: return "0B"\<close>, then
  \<^verbatim>\<open>i = int(math.floor(math.log(n, 1024))) if n > 0 else 0\<close> and the same
  \<^verbatim>\<open>return\<close>.
\<close>

definition human_size :: "pylib \<Rightarrow> int \<Rightarrow> py_exn + string" where
  "human_size lib n =
     (if n = 0 then Inr ''0B''
      else (case (if 0 < n then map_sum id floor (py_math_log lib n) else Inr 0) of
              Inl e \<Rightarrow> Inl e
            | Inr i \<Rightarrow>
                (case py_getitem units i of
                   Inl e \<Rightarrow> Inl e
                 | Inr u \<Rightarrow> Inr (fmt_2f lib n i @ u))))"

text \<open>
  An instance of the library for the scenarios below: the values \<^verbatim>\<open>math.log(n, 1024)\<close>
  has in CPython 3.11 at the sizes that occur there, to four decimals (\<open>5.0\<close> is what it
  returns at \<open>1024^5 - 1\<close>, and \<open>0.0\<close> at \<open>1\<close>), and the texts of the quotients.
\<close>

definition scenario_lib :: pylib where
  "scenario_lib =
     \<lparr> math_log = (\<lambda>n. if n = 1 then 0 else if n = 2 then 1 / 10
                      else if n = 100 then 6644 / 10000 else if n = 200 then 7644 / 10000
                      else if n = 300 then 8229 / 10000 else if n = 1536 then 10585 / 10000
                      else if n = 1024 ^ 5 - 1 then 5 else if n = 1024 ^ 5 then 5 else 0),
       fmt_2f = (\<lambda>n i. if n = 1 then ''1.00'' else if n = 2 then ''2.00''
                      else if n = 100 then ''100.00'' else if n = 200 then ''200.00''
                      else if n = 300 then ''300.00'' else if n = 1536 then ''1.50''
                      else ''1.00'') \<rparr>"

section \<open>Batch Loader: \<^verbatim>\<open>chunks\<close> and the load loops\<close>









text \<open>
  \<^verbatim>\<open>stage_and_load_to_bq_gcs.load_parquet_to_bq\<close>, with the module constant
  \<^verbatim>\<open>CHUNK_SIZE\<close> as the parameter \<open>chunk_size\<close> (the script sets it to 9000).
\<close>

definition CHUNK_SIZE :: int where
  "CHUNK_SIZE = 9000"







section \<open>Calendar dates\<close>

text \<open>
  \<^verbatim>\<open>datetime.date\<close>: a proleptic Gregorian date with \<open>1 \<le> year \<le> 9999\<close>. The
  constructor \<^verbatim>\<open>date(y, m, d)\<close> raises \<^verbatim>\<open>ValueError\<close> on anything else; dates
  compare as the triples (year, month, day).
\<close>

datatype date = Date (year: nat) (month: nat) (day: nat)

definition is_leap :: "nat \<Rightarrow> bool" where
  "is_leap y = (y mod 4 = 0 \<and> (y mod 100 \<noteq> 0 \<or> y mod 400 = 0))"

definition days_in_month :: "nat \<Rightarrow> nat \<Rightarrow> nat" where
  "days_in_month y m =
     (if m = 2 then (if is_leap y then 29 else 28)
      else if m = 4 \<or> m = 6 \<or> m = 9 \<or> m = 11 then 30 else 31)"

definition valid_date :: "date \<Rightarrow> bool" where
  "valid_date d =
     (1 \<le> year d \<and> year d \<le> 9999 \<and> 1 \<le> month d \<and> month d \<le> 12
      \<and> 1 \<le> day d \<and> day d \<le> days_in_month (year d) (month d))"

definition py_date :: "nat \<Rightarrow> nat \<Rightarrow> nat \<Rightarrow> py_exn + date" where
  "py_date y m d =
     (if valid_date (Date y m d) then Inr (Date y m d)
      else Inl (ValueError ''date value out of range''))"

definition date_less :: "date \<Rightarrow> date \<Rightarrow> bool" where
  "date_less a b =
     (year a < year b \<or> (year a = year b \<and>
        (month a < month b \<or> (month a = month b \<and> day a < day b))))"

definition date_le :: "date \<Rightarrow> date \<Rightarrow> bool" where
  "date_le a b = (a = b \<or> date_less a b)"

text \<open>
  \<^verbatim>\<open>d + timedelta(days=1)\<close>: the next calendar day; past \<^verbatim>\<open>date.max\<close>
  (9999-12-31) the addition raises \<^verbatim>\<open>OverflowError\<close>.
\<close>

definition next_day :: "date \<Rightarrow> py_exn + date" where
  "next_day d =
     (if day d < days_in_month (year d) (month d) then Inr (Date (year d) (month d) (day d + 1))
      else if month d < 12 then Inr (Date (year d) (month d + 1) 1)
      else if year d < 9999 then Inr (Date (year d + 1) 1 1)
      else Inl OverflowError)"

text \<open>
  \<^verbatim>\<open>daterange(start, end)\<close>, the same generator in the three scripts:
  \<^verbatim>\<open>d = start; while d <= end: yield d; d += timedelta(days=1)\<close>. The result is the
  list of dates yielded and, when the addition overflows after the last of them, the
  exception the consumer then sees.
\<close>

function daterange_from :: "date \<Rightarrow> date \<Rightarrow> date list \<times> py_exn option" where
  "daterange_from d e =
     (if date_le d e then
        (case next_day d of
           Inl ex \<Rightarrow> ([d], Some ex)
         | Inr d' \<Rightarrow> (let (ds, r) = daterange_from d' e in (d # ds, r)))
      else ([], None))"
  by pat_completeness auto
termination
proof (relation "measures [\<lambda>(d, e). year e + 1 - year d, \<lambda>(d, e). 13 - month d,
                          \<lambda>(d, e). 32 - day d]")
  show "wf (measures [\<lambda>(d, e). year e + 1 - year d, \<lambda>(d, e). 13 - month d,
                      \<lambda>(d, e). 32 - day d])"
    by simp
next
  fix d e :: date and d' :: date
  assume le: "date_le d e" and n: "next_day d = Inr d'"
  have dim: "days_in_month (year d) (month d) \<le> 31"
    by (simp add: days_in_month_def)
  have y: "year d \<le> year e"
    using le by (auto simp: date_le_def date_less_def)
  show "((d', e), (d, e)) \<in> measures [\<lambda>(d, e). year e + 1 - year d, \<lambda>(d, e). 13 - month d,
                                          \<lambda>(d, e). 32 - day d]"
    using n dim y by (auto simp: next_day_def split: if_splits)
qed

definition daterange :: "date \<Rightarrow> date \<Rightarrow> date list \<times> py_exn option" where
  "daterange start end_date = daterange_from start end_date"

text \<open>Decimal digits and the zero-padded fields of \<^verbatim>\<open>isoformat\<close> (\<^verbatim>\<open>%04d-%02d-%02d\<close>).\<close>

definition digit_chr :: "nat \<Rightarrow> char" where
  "digit_chr n = ''0123456789'' ! (n mod 10)"

definition pad2 :: "nat \<Rightarrow> string" where
  "pad2 n = [digit_chr (n div 10), digit_chr n]"

definition pad4 :: "nat \<Rightarrow> string" where
  "pad4 n = [digit_chr (n div 1000), digit_chr (n div 100), digit_chr (n div 10), digit_chr n]"

definition isoformat :: "date \<Rightarrow> string" where
  "isoformat d = pad4 (year d) @ ''-'' @ pad2 (month d) @ ''-'' @ pad2 (day d)"

section \<open>Partition Locator\<close>

text \<open>
  \<^verbatim>\<open>load_optimizely_decisions.build_date_prefix\<close>, statement by statement. The
  block that accepts \<^verbatim>\<open>type=decisions-rerun/\<close> (source lines 133 to 138, indented one
  column deeper than the function body) is followed by the two older checks of lines
  140 to 143, which are still there. The messages of the exceptions are shortened.
\<close>

definition acceptable :: "string list" where
  "acceptable = [''type=decisions/'', ''type=events/'', ''type=decisions-rerun/'']"

definition build_date_prefix :: "string \<Rightarrow> string \<Rightarrow> date \<Rightarrow> py_exn + string" where
  "build_date_prefix base_prefix data_type d =
     (let p = (if endswith base_prefix ''/'' then base_prefix else base_prefix @ ''/'')
      in if \<not> list_ex (endswith p) acceptable
           then Inl (ValueError ''S3_PREFIX must end with a type marker'')
         else if data_type = ''decisions''
                 \<and> \<not> (endswith p ''type=decisions/'' \<or> endswith p ''type=decisions-rerun/'')
           then Inl (ValueError ''--type decisions: not type=decisions/ or type=decisions-rerun/'')
         else if data_type = ''events'' \<and> \<not> endswith p ''type=events/''
           then Inl (ValueError ''--type events: not type=events/'')
         else if data_type = ''decisions'' \<and> \<not> endswith p ''type=decisions/''
           then Inl (ValueError ''--type decisions: not type=decisions/'')
         else if data_type = ''events'' \<and> \<not> endswith p ''type=events/''
           then Inl (ValueError ''--type events: not type=events/'')
         else Inr (p @ ''date='' @ isoformat d @ ''/''))"

text \<open>\<^verbatim>\<open>load_optimizely_decisions_v2.validate_prefix_endswith\<close>.\<close>

definition validate_prefix_endswith :: "string \<Rightarrow> string \<Rightarrow> py_exn + unit" where
  "validate_prefix_endswith pfx partition_type =
     (if \<not> list_ex (endswith pfx) acceptable
        then Inl (ValueError ''--prefix must end with a type marker'')
      else if partition_type = ''events'' \<and> \<not> endswith pfx ''type=events/''
        then Inl (ValueError ''--type events requires type=events/'')
      else if partition_type = ''decisions''
              \<and> \<not> (endswith pfx ''type=decisions/'' \<or> endswith pfx ''type=decisions-rerun/'')
        then Inl (ValueError ''--type decisions requires type=decisions/ or type=decisions-rerun/'')
      else Inr ())"

text \<open>
  The per-day prefix of \<^verbatim>\<open>load_optimizely_decisions_v2.main\<close>:
  \<^verbatim>\<open>prefix + f"date={d.isoformat()}/"\<close>.
\<close>

definition date_prefix_v2 :: "string \<Rightarrow> date \<Rightarrow> string" where
  "date_prefix_v2 pfx d = pfx @ ''date='' @ isoformat d @ ''/''"

section \<open>Partition Completeness Check\<close>

text \<open>
  \<^verbatim>\<open>client.head_object(Bucket=bucket, Key=key)\<close> returns or raises.
  \<^verbatim>\<open>success_marker_exists\<close> (the same in both loader scripts) wraps the probe in
  \<^verbatim>\<open>try ... except Exception\<close>; the debug line it prints when \<^verbatim>\<open>verbose\<close> is set is
  not modelled.
\<close>

datatype head_result = HeadOk | HeadRaises py_exn

definition success_marker_exists ::
  "(string \<Rightarrow> string \<Rightarrow> head_result) \<Rightarrow> string \<Rightarrow> string \<Rightarrow> py_exn + bool" where
  "success_marker_exists head_object bucket date_prefix =
     (let key = date_prefix @ ''_SUCCESS''
      in case head_object bucket key of
           HeadOk \<Rightarrow> Inr True
         | HeadRaises e \<Rightarrow> if is_Exception e then Inr False else Inl e)"

section \<open>Bucket and prefix of a run (v2)\<close>

text \<open>
  Python truthiness of an optional string: \<^verbatim>\<open>None\<close> and \<^verbatim>\<open>""\<close> are falsy, so
  \<^verbatim>\<open>if x:\<close> is a case on \<open>nonempty x\<close>; \<^verbatim>\<open>a or b\<close> is \<open>py_or\<close>, and \<open>or_str\<close>
  when \<open>b\<close> is a string.
\<close>

definition nonempty :: "string option \<Rightarrow> string option" where
  "nonempty a = (case a of None \<Rightarrow> None | Some s \<Rightarrow> if s = [] then None else Some s)"

definition py_or :: "string option \<Rightarrow> string option \<Rightarrow> string option" where
  "py_or a b = (case nonempty a of Some s \<Rightarrow> Some s | None \<Rightarrow> b)"

definition or_str :: "string option \<Rightarrow> string \<Rightarrow> string" where
  "or_str a b = (case nonempty a of Some s \<Rightarrow> s | None \<Rightarrow> b)"

text \<open>
  \<^verbatim>\<open>urllib.parse.urlparse\<close> is the library's; it is a parameter here, giving the
  \<^verbatim>\<open>netloc\<close> and \<^verbatim>\<open>path\<close> of a URL, or raising. \<^verbatim>\<open>lstrip("/")\<close> drops the leading
  slashes.
\<close>

type_synonym urlparse_fn = "string \<Rightarrow> py_exn + (string \<times> string)"

definition parse_s3_path :: "urlparse_fn \<Rightarrow> string \<Rightarrow> py_exn + (string \<times> string)" where
  "parse_s3_path urlparse s3_path =
     (if \<not> startswith s3_path ''s3://'' then Inl (ValueError ''Expected s3:// URL'')
      else case urlparse s3_path of
             Inl e \<Rightarrow> Inl e
           | Inr (netloc, path) \<Rightarrow>
               (let key = dropWhile (\<lambda>c. c = CHR ''/'') path;
                    key' = (if key \<noteq> [] \<and> \<not> endswith key ''/'' then key @ ''/'' else key)
                in Inr (netloc, key')))"

text \<open>
  The three regular expressions of \<^verbatim>\<open>compute_bucket_and_prefix\<close>, each as a
  matcher at the head of a string; \<^verbatim>\<open>re.search\<close> tries every suffix, \<^verbatim>\<open>re.match\<close>
  the string itself. \<^verbatim>\<open>\d\<close> is read on ASCII digits. \<^verbatim>\<open>\d+\<close> is greedy and cannot
  give a digit back to \<^verbatim>\<open>/\<close> or \<^verbatim>\<open>$\<close>, so the matcher takes every digit.
  \<^verbatim>\<open>$\<close> matches at the end of the string and before a final newline.
\<close>

definition is_digit :: "char \<Rightarrow> bool" where
  "is_digit c = (c \<in> set ''0123456789'')"

fun strip_prefix :: "string \<Rightarrow> string \<Rightarrow> string option" where
  "strip_prefix [] s = Some s"
| "strip_prefix (p # ps) [] = None"
| "strip_prefix (p # ps) (c # cs) = (if p = c then strip_prefix ps cs else None)"

definition at_dollar :: "string \<Rightarrow> bool" where
  "at_dollar rest = (rest = [] \<or> rest = [CHR 0x0A])"

text \<open>\<^verbatim>\<open>v1/account_id=\d+/?$\<close> at the head of \<open>s\<close>.\<close>

definition match_account_end :: "string \<Rightarrow> bool" where
  "match_account_end s =
     (case strip_prefix ''v1/account_id='' s of
        None \<Rightarrow> False
      | Some r \<Rightarrow>
          (let ds = takeWhile is_digit r; rest = dropWhile is_digit r
           in ds \<noteq> [] \<and> (case rest of
                             c # rest' \<Rightarrow> (c = CHR ''/'' \<and> at_dollar rest') \<or> at_dollar rest
                           | [] \<Rightarrow> True)))"

text \<open>\<^verbatim>\<open>(v1/account_id=\d+/)\<close> at the head of \<open>s\<close>: the text of group 1, if it matches.\<close>

definition match_account_slash :: "string \<Rightarrow> string option" where
  "match_account_slash s =
     (case strip_prefix ''v1/account_id='' s of
        None \<Rightarrow> None
      | Some r \<Rightarrow>
          (let ds = takeWhile is_digit r; rest = dropWhile is_digit r
           in if ds \<noteq> [] \<and> (case rest of c # _ \<Rightarrow> c = CHR ''/'' | [] \<Rightarrow> False)
              then Some (''v1/account_id='' @ ds @ ''/'') else None))"

definition re_search :: "(string \<Rightarrow> bool) \<Rightarrow> string \<Rightarrow> bool" where
  "re_search matches_at s = list_ex matches_at (suffixes s)"

text \<open>
  The arguments \<^verbatim>\<open>argparse\<close> hands to \<^verbatim>\<open>main\<close> of the v2 script. \<^verbatim>\<open>--type\<close> is
  one of \<^verbatim>\<open>decisions\<close>, \<^verbatim>\<open>events\<close>, \<^verbatim>\<open>decisions-rerun\<close>; \<^verbatim>\<open>--auth\<close> one of
  \<^verbatim>\<open>optimizely\<close>, \<^verbatim>\<open>aws\<close>.
\<close>

record args_v2 =
  arg_auth :: string
  arg_pat :: "string option"
  arg_duration :: string
  arg_bucket :: "string option"
  arg_prefix :: "string option"
  arg_account_id :: "string option"
  arg_partition_type :: string
  arg_region :: string
  arg_out_dir :: string
  arg_start_date :: string
  arg_end_date :: string
  arg_dry_run :: bool
  arg_require_success :: bool
  arg_verbose :: bool

text \<open>
  \<^verbatim>\<open>compute_bucket_and_prefix(args, s3_path_hint)\<close>. \<^verbatim>\<open>DEFAULT_BUCKET\<close> is read
  from the environment when the module loads and is the parameter \<open>default_bucket\<close>.
\<close>

definition hint_parts ::
  "urlparse_fn \<Rightarrow> string option \<Rightarrow> py_exn + (string option \<times> string option)" where
  "hint_parts urlparse s3_path_hint =
     (case nonempty s3_path_hint of
        None \<Rightarrow> Inr (None, None)
      | Some h \<Rightarrow>
          (case parse_s3_path urlparse h of
             Inr (b, k) \<Rightarrow> Inr (Some b, Some k)
           | Inl e \<Rightarrow> if is_Exception e then Inr (None, None) else Inl e))"

definition account_base_of :: "string option \<Rightarrow> string option" where
  "account_base_of base_key =
     (case nonempty base_key of
        None \<Rightarrow> None
      | Some k \<Rightarrow>
          if re_search match_account_end k then Some k
          else if re_search (\<lambda>s. match_account_slash s \<noteq> None) k then match_account_slash k
          else None)"

definition compute_bucket_and_prefix ::
  "urlparse_fn \<Rightarrow> string \<Rightarrow> args_v2 \<Rightarrow> string option \<Rightarrow> py_exn + (string \<times> string)" where
  "compute_bucket_and_prefix urlparse default_bucket args s3_path_hint =
     (case nonempty (arg_prefix args) of
        Some p \<Rightarrow>
          (let prefix = (if endswith p ''/'' then p else p @ ''/'')
           in case validate_prefix_endswith prefix (arg_partition_type args) of
                Inl e \<Rightarrow> Inl e
              | Inr _ \<Rightarrow> Inr (or_str (arg_bucket args) default_bucket, prefix))
      | None \<Rightarrow>
          (case hint_parts urlparse s3_path_hint of
             Inl e \<Rightarrow> Inl e
           | Inr (base_bucket, base_key) \<Rightarrow>
               (let bucket = or_str (py_or (arg_bucket args) base_bucket) default_bucket;
                    account_base0 = account_base_of base_key;
                    account_base =
                      (case (nonempty account_base0, nonempty (arg_account_id args)) of
                         (None, Some a) \<Rightarrow> Some (''v1/account_id='' @ a @ ''/'')
                       | _ \<Rightarrow> account_base0)
                in case nonempty account_base of
                     None \<Rightarrow> Inl (RuntimeError ''Cannot determine account base prefix'')
                   | Some ab \<Rightarrow>
                       (let partition = ''type='' @ arg_partition_type args @ ''/'';
                            prefix = ab @ partition
                        in case validate_prefix_endswith prefix (arg_partition_type args) of
                             Inl e \<Rightarrow> Inl e
                           | Inr _ \<Rightarrow> Inr (bucket, prefix)))))"

text \<open>
  A plain reading of \<^verbatim>\<open>urlparse\<close> on URLs \<^verbatim>\<open>s3://bucket/key\<close> that carry no query
  and no fragment, for running the functions above on concrete hints.
\<close>

definition urlparse_plain :: urlparse_fn where
  "urlparse_plain url =
     (let rest = drop 5 url
      in Inr (takeWhile (\<lambda>c. c \<noteq> CHR ''/'') rest, dropWhile (\<lambda>c. c \<noteq> CHR ''/'') rest))"

text \<open>The defaults of \<^verbatim>\<open>build_arg_parser\<close> (no option given on the command line).\<close>

definition default_args :: args_v2 where
  "default_args =
     \<lparr> arg_auth = ''optimizely'', arg_pat = None, arg_duration = ''1h'',
       arg_bucket = None, arg_prefix = None, arg_account_id = None,
       arg_partition_type = ''decisions'', arg_region = ''us-east-1'',
       arg_out_dir = ''downloads'', arg_start_date = ''2024-10-30'',
       arg_end_date = ''2025-10-29'', arg_dry_run = False,
       arg_require_success = True, arg_verbose = False \<rparr>"

section \<open>Local filesystem and path functions\<close>

text \<open>
  The staging directory is the part of the world the Transfer Executor changes. A
  resolved path is the list of names from the working directory (or from the root,
  then it starts with the pseudo-name \<^verbatim>\<open>/\<close>); the filesystem maps resolved paths to
  nodes. The model is POSIX without symbolic links, permissions or other processes.
\<close>

datatype node = File nat | Dir

type_synonym path = "string list"

type_synonym fs = "path \<Rightarrow> node option"

text \<open>\<^verbatim>\<open>str.split("/")\<close>: never empty, one more part than there are slashes.\<close>

fun split_slash :: "string \<Rightarrow> string list" where
  "split_slash [] = [[]]"
| "split_slash (c # cs) =
     (if c = CHR ''/'' then [] # split_slash cs
      else (case split_slash cs of
              w # ws \<Rightarrow> (c # w) # ws
            | [] \<Rightarrow> [[c]]))"

text \<open>
  \<^verbatim>\<open>posixpath.join(a, *p)\<close>: a part that starts with a slash restarts the path, a
  part after an empty path or a trailing slash is appended as it is, any other part
  after a slash.
\<close>

fun path_join :: "string \<Rightarrow> string list \<Rightarrow> string" where
  "path_join p [] = p"
| "path_join p (b # bs) =
     path_join (if startswith b ''/'' then b
                else if p = [] \<or> endswith p ''/'' then p @ b
                else p @ ''/'' @ b) bs"

text \<open>
  \<^verbatim>\<open>posixpath.dirname(p)\<close>: everything up to the last slash, without its trailing
  slashes unless it is slashes only.
\<close>

definition rstrip_slash :: "string \<Rightarrow> string" where
  "rstrip_slash s = rev (dropWhile (\<lambda>c. c = CHR ''/'') (rev s))"

definition dirname :: "string \<Rightarrow> string" where
  "dirname p =
     (let head = rev (dropWhile (\<lambda>c. c \<noteq> CHR ''/'') (rev p))
      in if head \<noteq> [] \<and> \<not> list_all (\<lambda>c. c = CHR ''/'') head then rstrip_slash head else head)"

text \<open>
  How the operating system walks a path: an empty name and \<^verbatim>\<open>.\<close> stay, \<^verbatim>\<open>..\<close> goes
  to the parent, any other name goes down. The working directory, the root and the
  ancestors of the working directory are directories that are always there.
\<close>

definition implicit_dir :: "path \<Rightarrow> bool" where
  "implicit_dir p = (p = [''/''] \<or> list_all (\<lambda>c. c = ''..'') p)"

definition parent :: "path \<Rightarrow> path" where
  "parent cur =
     (if cur = [''/''] then cur
      else if implicit_dir cur then cur @ [''..'']
      else butlast cur)"

definition walk_step :: "path \<Rightarrow> string \<Rightarrow> path" where
  "walk_step cur c =
     (if c = [] \<or> c = ''.'' then cur
      else if c = ''..'' then parent cur
      else cur @ [c])"

definition start_of :: "string \<Rightarrow> path" where
  "start_of name = (if startswith name ''/'' then [''/''] else [])"

definition resolve :: "string \<Rightarrow> path" where
  "resolve name = foldl walk_step (start_of name) (split_slash name)"

definition node_at :: "fs \<Rightarrow> path \<Rightarrow> node option" where
  "node_at fs p = (if implicit_dir p then Some Dir else fs p)"

text \<open>
  \<^verbatim>\<open>os.path.exists\<close> and \<^verbatim>\<open>os.path.getsize\<close>, by lexical resolution of the path
  (exact when the directories on the way exist, which \<open>ensure_local_path\<close> has made
  sure of where the scripts call them). The size the system reports for a directory
  depends on the platform and is the parameter \<open>dsz\<close>; \<open>getsize\<close> of a missing path
  raises, which is \<open>None\<close> here.
\<close>

definition path_exists :: "fs \<Rightarrow> string \<Rightarrow> bool" where
  "path_exists fs name = (name \<noteq> [] \<and> node_at fs (resolve name) \<noteq> None)"

definition getsize :: "nat \<Rightarrow> fs \<Rightarrow> string \<Rightarrow> nat option" where
  "getsize dsz fs name =
     (if name = [] then None
      else case node_at fs (resolve name) of
             None \<Rightarrow> None
           | Some Dir \<Rightarrow> Some dsz
           | Some (File n) \<Rightarrow> Some n)"

text \<open>
  \<^verbatim>\<open>os.makedirs(name, exist_ok=True)\<close>: every directory on the way to \<open>name\<close> is
  created unless it is there; a file in the way raises (\<^verbatim>\<open>FileExistsError\<close> or
  \<^verbatim>\<open>NotADirectoryError\<close>, both \<^verbatim>\<open>OSError\<close>), and so does the empty name.
\<close>

fun mkdir_walk :: "fs \<Rightarrow> path \<Rightarrow> string list \<Rightarrow> py_exn + fs" where
  "mkdir_walk fs cur [] = Inr fs"
| "mkdir_walk fs cur (c # cs) =
     (if c = [] \<or> c = ''.'' \<or> c = ''..'' then mkdir_walk fs (walk_step cur c) cs
      else (case node_at fs (cur @ [c]) of
              Some (File n) \<Rightarrow> Inl (OSError ''a file is in the way'')
            | Some Dir \<Rightarrow> mkdir_walk fs (cur @ [c]) cs
            | None \<Rightarrow> mkdir_walk (fs(cur @ [c] \<mapsto> Dir)) (cur @ [c]) cs))"

definition makedirs :: "fs \<Rightarrow> string \<Rightarrow> py_exn + fs" where
  "makedirs fs name =
     (if name = [] then Inl (OSError ''No such file or directory'')
      else mkdir_walk fs (start_of name) (split_slash name))"

text \<open>
  \<^verbatim>\<open>ensure_local_path(root_dir, key)\<close>, the same in the three extraction scripts:
  \<^verbatim>\<open>local_path = os.path.join(root_dir, *key.split("/"))\<close>,
  \<^verbatim>\<open>os.makedirs(os.path.dirname(local_path), exist_ok=True)\<close>.
\<close>

definition local_path_of :: "string \<Rightarrow> string \<Rightarrow> string" where
  "local_path_of root_dir key = path_join root_dir (split_slash key)"

definition ensure_local_path :: "fs \<Rightarrow> string \<Rightarrow> string \<Rightarrow> py_exn + (string \<times> fs)" where
  "ensure_local_path fs root_dir key =
     (let local_path = local_path_of root_dir key
      in case makedirs fs (dirname local_path) of
           Inl e \<Rightarrow> Inl e
         | Inr fs' \<Rightarrow> Inr (local_path, fs'))"

section \<open>Transfer Executor\<close>

text \<open>
  An entry of an S3 listing: a dictionary that normally holds \<^verbatim>\<open>Key\<close> and
  \<^verbatim>\<open>Size\<close>. \<^verbatim>\<open>obj["Key"]\<close> raises \<^verbatim>\<open>KeyError\<close> when the key is missing;
  \<^verbatim>\<open>obj.get("Size", 0)\<close> and \<^verbatim>\<open>obj.get("Key", "")\<close> fall back.
\<close>

record s3obj =
  Key :: "string option"
  Size :: "int option"

definition size_of :: "s3obj \<Rightarrow> int" where
  "size_of obj = (case Size obj of Some n \<Rightarrow> n | None \<Rightarrow> 0)"

definition key_index :: "s3obj \<Rightarrow> py_exn + string" where
  "key_index obj = (case Key obj of Some k \<Rightarrow> Inr k | None \<Rightarrow> Inl (KeyError ''Key''))"

definition key_get :: "s3obj \<Rightarrow> string" where
  "key_get obj = (case Key obj of Some k \<Rightarrow> k | None \<Rightarrow> [])"

text \<open>
  \<^verbatim>\<open>client.download_file(bucket, key, local_path)\<close>. The client is an oracle: for
  the \<open>idx\<close>-th entry of the list and its key it either fetches the object, of some
  size, or raises. A fetched object replaces the file at the local path; writing onto
  a directory raises. A failed download leaves the filesystem as it was.
\<close>

datatype fetch_result = Fetched nat | FetchRaises py_exn

type_synonym s3_client = "nat \<Rightarrow> string \<Rightarrow> fetch_result"

definition download_file :: "s3_client \<Rightarrow> nat \<Rightarrow> fs \<Rightarrow> string \<Rightarrow> string \<Rightarrow> py_exn + fs" where
  "download_file client idx fs key local_path =
     (case client idx key of
        FetchRaises e \<Rightarrow> Inl e
      | Fetched n \<Rightarrow>
          (case node_at fs (resolve local_path) of
             Some Dir \<Rightarrow> Inl (OSError ''Is a directory'')
           | _ \<Rightarrow> Inr (fs(resolve local_path \<mapsto> File n))))"

text \<open>
  The counters \<open>(ok, skipped, failed)\<close> and the filesystem are the state of the loop.
  \<open>transfer_one\<close> is the body the three scripts share, from \<open>ensure_local_path\<close> on:
  the size-equality skip rule, the dry-run branch, the download in
  \<^verbatim>\<open>try ... except Exception\<close>. Of the progress lines the model keeps what can
  raise: both the \<^verbatim>\<open>SKIP\<close> and the \<^verbatim>\<open>GET\<close> line format the size with the script's
  \<^verbatim>\<open>human_size\<close>, here \<open>hs\<close>, outside the \<^verbatim>\<open>try\<close>.
\<close>

type_synonym counts = "nat \<times> nat \<times> nat"

type_synonym tstate = "counts \<times> fs"

definition transfer_one ::
  "(int \<Rightarrow> py_exn + string) \<Rightarrow> nat \<Rightarrow> s3_client \<Rightarrow> string \<Rightarrow> bool \<Rightarrow> nat \<Rightarrow> string \<Rightarrow> int \<Rightarrow>
   tstate \<Rightarrow> py_exn + tstate" where
  "transfer_one hs dsz client out_dir dry_run idx key sz st =
     (case st of ((ok, skipped, failed), fs) \<Rightarrow>
        (case ensure_local_path fs out_dir key of
           Inl e \<Rightarrow> Inl e
         | Inr (local_path, fs1) \<Rightarrow>
             if path_exists fs1 local_path
                \<and> map_option int (getsize dsz fs1 local_path) = Some sz
               then (case hs sz of
                       Inl e \<Rightarrow> Inl e
                     | Inr line \<Rightarrow> Inr ((ok, skipped + 1, failed), fs1))
             else (case hs sz of
                     Inl e \<Rightarrow> Inl e
                   | Inr line \<Rightarrow>
                       if dry_run then Inr ((ok + 1, skipped, failed), fs1)
                       else (case download_file client idx fs1 key local_path of
                               Inr fs2 \<Rightarrow> Inr ((ok + 1, skipped, failed), fs2)
                             | Inl e \<Rightarrow>
                                 if is_Exception e then Inr ((ok, skipped, failed + 1), fs1)
                                 else Inl e))))"

text \<open>
  \<^verbatim>\<open>extract_optimizely_s3.download_objects\<close>: every entry goes through the body;
  there is no test for directory markers.
\<close>

fun extract_loop ::
  "pylib \<Rightarrow> nat \<Rightarrow> s3_client \<Rightarrow> string \<Rightarrow> bool \<Rightarrow> nat \<Rightarrow> s3obj list \<Rightarrow> tstate \<Rightarrow> py_exn + tstate" where
  "extract_loop lib dsz client out_dir dry_run idx [] st = Inr st"
| "extract_loop lib dsz client out_dir dry_run idx (obj # rest) st =
     (case key_index obj of
        Inl e \<Rightarrow> Inl e
      | Inr key \<Rightarrow>
          (case transfer_one (human_size_extract lib) dsz client out_dir dry_run idx key (size_of obj) st of
             Inl e \<Rightarrow> Inl e
           | Inr st' \<Rightarrow> extract_loop lib dsz client out_dir dry_run (idx + 1) rest st'))"

definition extract_download_objects ::
  "pylib \<Rightarrow> nat \<Rightarrow> s3_client \<Rightarrow> s3obj list \<Rightarrow> string \<Rightarrow> bool \<Rightarrow> fs \<Rightarrow> py_exn + tstate" where
  "extract_download_objects lib dsz client objects out_dir dry_run fs =
     extract_loop lib dsz client out_dir dry_run 1 objects ((0, 0, 0), fs)"

text \<open>
  \<^verbatim>\<open>load_optimizely_decisions.download_objects\<close>: a key that ends with a slash is
  passed over before anything else is done with it.
\<close>

fun download_loop ::
  "pylib \<Rightarrow> nat \<Rightarrow> s3_client \<Rightarrow> string \<Rightarrow> bool \<Rightarrow> nat \<Rightarrow> s3obj list \<Rightarrow> tstate \<Rightarrow> py_exn + tstate" where
  "download_loop lib dsz client out_dir dry_run idx [] st = Inr st"
| "download_loop lib dsz client out_dir dry_run idx (obj # rest) st =
     (case key_index obj of
        Inl e \<Rightarrow> Inl e
      | Inr key \<Rightarrow>
          if endswith key ''/'' then download_loop lib dsz client out_dir dry_run (idx + 1) rest st
          else (case transfer_one (human_size lib) dsz client out_dir dry_run idx key (size_of obj) st of
                  Inl e \<Rightarrow> Inl e
                | Inr st' \<Rightarrow> download_loop lib dsz client out_dir dry_run (idx + 1) rest st'))"

definition download_objects ::
  "pylib \<Rightarrow> nat \<Rightarrow> s3_client \<Rightarrow> s3obj list \<Rightarrow> string \<Rightarrow> bool \<Rightarrow> fs \<Rightarrow> py_exn + tstate" where
  "download_objects lib dsz client objects out_dir dry_run fs =
     download_loop lib dsz client out_dir dry_run 1 objects ((0, 0, 0), fs)"

text \<open>
  The transfer loop written out in \<^verbatim>\<open>load_optimizely_decisions_v2.main\<close>:
  \<^verbatim>\<open>if key.endswith("/") or not key: continue\<close>.
\<close>

fun inline_loop ::
  "pylib \<Rightarrow> nat \<Rightarrow> s3_client \<Rightarrow> string \<Rightarrow> bool \<Rightarrow> nat \<Rightarrow> s3obj list \<Rightarrow> tstate \<Rightarrow> py_exn + tstate" where
  "inline_loop lib dsz client out_dir dry_run idx [] st = Inr st"
| "inline_loop lib dsz client out_dir dry_run idx (obj # rest) st =
     (let key = key_get obj
      in if endswith key ''/'' \<or> key = [] then inline_loop lib dsz client out_dir dry_run (idx + 1) rest st
         else (case transfer_one (human_size lib) dsz client out_dir dry_run idx key (size_of obj) st of
                 Inl e \<Rightarrow> Inl e
               | Inr st' \<Rightarrow> inline_loop lib dsz client out_dir dry_run (idx + 1) rest st'))"

definition inline_transfer ::
  "pylib \<Rightarrow> nat \<Rightarrow> s3_client \<Rightarrow> s3obj list \<Rightarrow> string \<Rightarrow> bool \<Rightarrow> fs \<Rightarrow> py_exn + tstate" where
  "inline_transfer lib dsz client objects out_dir dry_run fs =
     inline_loop lib dsz client out_dir dry_run 1 objects ((0, 0, 0), fs)"

text \<open>
  The claim's eligible objects: those whose key does not end in the separator. An
  entry without a key counts as having the empty key, as \<^verbatim>\<open>obj.get("Key", "")\<close> reads
  it.
\<close>

definition eligible :: "s3obj \<Rightarrow> bool" where
  "eligible obj = (\<not> endswith (key_get obj) ''/'')"

definition total :: "counts \<Rightarrow> nat" where
  "total c = (case c of (ok, skipped, failed) \<Rightarrow> ok + skipped + failed)"

definition empty_fs :: fs where
  "empty_fs = (\<lambda>p. None)"




text \<open>What a run returns to its caller: the counters, or the exception.\<close>

definition counts_of :: "py_exn + tstate \<Rightarrow> py_exn + counts" where
  "counts_of r = map_sum id fst r"






text \<open>
  The way to a name is clear: no file sits where \<open>makedirs\<close> needs a directory, and the
  name is not empty. That is when \<open>makedirs\<close> returns.
\<close>

fun clear :: "fs \<Rightarrow> path \<Rightarrow> string list \<Rightarrow> bool" where
  "clear fs cur [] = True"
| "clear fs cur (c # cs) =
     (if c = [] \<or> c = ''.'' \<or> c = ''..'' then clear fs (walk_step cur c) cs
      else (case node_at fs (cur @ [c]) of
              Some (File n) \<Rightarrow> False
            | _ \<Rightarrow> clear fs (cur @ [c]) cs))"

definition way_clear :: "fs \<Rightarrow> string \<Rightarrow> bool" where
  "way_clear fs name = (name \<noteq> [] \<and> clear fs (start_of name) (split_slash name))"










section \<open>The date heuristic of the first script\<close>

text \<open>
  \<^verbatim>\<open>DATE_IN_KEY_REGEX = (?<!\d)(20\d{2})[-/_]?([01]\d)[-/_]?([0-3]\d)(?!\d)\<close>.
  \<open>match_date_at prev s\<close> matches the expression at the head of \<open>s\<close>, \<open>prev\<close> being the
  character before it, and gives the three numbers (as \<^verbatim>\<open>int\<close> reads the groups)
  and the length of the match. An optional separator is taken when it is there: the
  expression cannot match without it, since the next item is a digit class.
\<close>

definition digit_val :: "char \<Rightarrow> nat" where
  "digit_val c = of_char c - 48"

definition is_sep :: "char \<Rightarrow> bool" where
  "is_sep c = (c \<in> set ''-/_'')"

definition skip_sep :: "string \<Rightarrow> string" where
  "skip_sep s = (case s of c # r \<Rightarrow> if is_sep c then r else s | [] \<Rightarrow> s)"

definition match_date_at :: "char option \<Rightarrow> string \<Rightarrow> ((nat \<times> nat \<times> nat) \<times> nat) option" where
  "match_date_at prev s =
     (if (case prev of Some p \<Rightarrow> is_digit p | None \<Rightarrow> False) then None
      else case s of
        c1 # c2 # y3 # y4 # r1 \<Rightarrow>
          if c1 = CHR ''2'' \<and> c2 = CHR ''0'' \<and> is_digit y3 \<and> is_digit y4 then
            (case skip_sep r1 of
               m1 # m2 # r3 \<Rightarrow>
                 if (m1 = CHR ''0'' \<or> m1 = CHR ''1'') \<and> is_digit m2 then
                   (case skip_sep r3 of
                      d1 # d2 # r5 \<Rightarrow>
                        if d1 \<in> set ''0123'' \<and> is_digit d2
                           \<and> (case r5 of c # _ \<Rightarrow> \<not> is_digit c | [] \<Rightarrow> True)
                        then Some ((2000 + 10 * digit_val y3 + digit_val y4,
                                    10 * digit_val m1 + digit_val m2,
                                    10 * digit_val d1 + digit_val d2),
                                   length s - length r5)
                        else None
                    | _ \<Rightarrow> None)
                 else None
             | _ \<Rightarrow> None)
          else None
      | _ \<Rightarrow> None)"

text \<open>
  \<^verbatim>\<open>finditer\<close>: the matches from left to right, none overlapping another. After a
  match of length \<open>n\<close> the scan resumes behind it, so the next \<open>n - 1\<close> positions are
  passed over (\<open>skip\<close>).
\<close>

fun find_dates :: "char option \<Rightarrow> nat \<Rightarrow> string \<Rightarrow> (nat \<times> nat \<times> nat) list" where
  "find_dates prev skip [] = []"
| "find_dates prev skip (c # cs) =
     (if 0 < skip then find_dates (Some c) (skip - 1) cs
      else (case match_date_at prev (c # cs) of
              Some (ymd, n) \<Rightarrow> ymd # find_dates (Some c) (n - 1) cs
            | None \<Rightarrow> find_dates (Some c) 0 cs))"

text \<open>
  \<^verbatim>\<open>key_has_date_in_range(key, start, end)\<close>: true at the first match that is a
  date within the range; a match that is no date (\<^verbatim>\<open>ValueError\<close>) is passed over.
\<close>

definition key_has_date_in_range :: "string \<Rightarrow> date \<Rightarrow> date \<Rightarrow> bool" where
  "key_has_date_in_range key start end_date =
     list_ex (\<lambda>(y, m, d). case py_date y m d of
                              Inl e \<Rightarrow> False
                            | Inr found \<Rightarrow> date_le start found \<and> date_le found end_date)
       (find_dates None 0 key)"

text \<open>
  In the spec's words: a date is extracted from a key when the key holds its eight
  digits, starting with \<^verbatim>\<open>20\<close>, year, month and day each possibly followed by one of
  \<^verbatim>\<open>-\<close>, \<^verbatim>\<open>/\<close>, \<^verbatim>\<open>_\<close>, with no digit right before or right after.
\<close>

definition opt_sep :: "string \<Rightarrow> bool" where
  "opt_sep s = (s = [] \<or> (\<exists>c. s = [c] \<and> is_sep c))"

definition date_in_key :: "string \<Rightarrow> date \<Rightarrow> bool" where
  "date_in_key key dt =
     (\<exists>pre post y3 y4 sa m1 m2 sb d1 d2.
        key = pre @ [CHR ''2'', CHR ''0'', y3, y4] @ sa @ [m1, m2] @ sb @ [d1, d2] @ post
      \<and> is_digit y3 \<and> is_digit y4 \<and> is_digit m1 \<and> is_digit m2 \<and> is_digit d1 \<and> is_digit d2
      \<and> opt_sep sa \<and> opt_sep sb
      \<and> (pre = [] \<or> \<not> is_digit (last pre)) \<and> (post = [] \<or> \<not> is_digit (hd post))
      \<and> year dt = 2000 + 10 * digit_val y3 + digit_val y4
      \<and> month dt = 10 * digit_val m1 + digit_val m2
      \<and> day dt = 10 * digit_val d1 + digit_val d2)"

section \<open>Object Enumerator and Sync Engine (v2)\<close>

text \<open>
  What the run does on the network, in order: the call to the credential endpoint,
  the probes for the completion marker, the listing calls. (Downloads show in the
  counters and in the filesystem the transfer returns.)
\<close>

datatype net_event =
    CredentialExchange
  | HeadObject string string
  | ListObjectsV2 string string "string option"

text \<open>
  A page of \<^verbatim>\<open>list_objects_v2\<close>: \<^verbatim>\<open>resp.get("Contents", [])\<close>,
  \<^verbatim>\<open>resp.get("IsTruncated")\<close>, \<^verbatim>\<open>resp.get("NextContinuationToken")\<close>. The store is an
  oracle from the prefix and the continuation token to a page or an exception.
\<close>

record page =
  Contents :: "s3obj list option"
  IsTruncated :: bool
  NextContinuationToken :: "string option"

type_synonym lister = "string \<Rightarrow> string option \<Rightarrow> py_exn + page"

text \<open>
  \<^verbatim>\<open>list_objects(client, bucket, prefix)\<close>, consumed to its end: the calls made and
  the objects yielded, or the exception of the call that raised. The loop runs while
  the store says \<^verbatim>\<open>IsTruncated\<close>; a store that always does keeps it running, which is
  \<open>None\<close>.
\<close>

partial_function (option) list_pages ::
  "lister \<Rightarrow> string \<Rightarrow> string \<Rightarrow> string option \<Rightarrow> (net_event list \<times> (py_exn + s3obj list)) option" where
  "list_pages client bucket pfx token =
     (case client pfx (nonempty token) of
        Inl e \<Rightarrow> Some ([ListObjectsV2 bucket pfx (nonempty token)], Inl e)
      | Inr resp \<Rightarrow>
          if IsTruncated resp then
            Option.bind (list_pages client bucket pfx (NextContinuationToken resp))
              (\<lambda>r. Some (ListObjectsV2 bucket pfx (nonempty token) # fst r,
                          case snd r of
                            Inl e \<Rightarrow> Inl e
                          | Inr rest \<Rightarrow> Inr ((case Contents resp of Some c \<Rightarrow> c | None \<Rightarrow> []) @ rest)))
          else Some ([ListObjectsV2 bucket pfx (nonempty token)],
                     Inr (case Contents resp of Some c \<Rightarrow> c | None \<Rightarrow> [])))"

definition list_objects ::
  "lister \<Rightarrow> string \<Rightarrow> string \<Rightarrow> (net_event list \<times> (py_exn + s3obj list)) option" where
  "list_objects client bucket pfx = list_pages client bucket pfx None"

text \<open>
  The per-day loop of \<^verbatim>\<open>load_optimizely_decisions_v2.main\<close> over the dates the
  generator yields: probe the marker, pass the day over when the marker is required and
  missing, list the day, keep the keys ending in \<^verbatim>\<open>.parquet\<close>, append them to
  \<^verbatim>\<open>all_objects\<close>.
\<close>

definition is_parquet :: "s3obj \<Rightarrow> bool" where
  "is_parquet obj = endswith (key_get obj) ''.parquet''"

fun collect_days ::
  "(string \<Rightarrow> string \<Rightarrow> head_result) \<Rightarrow> lister \<Rightarrow> string \<Rightarrow> string \<Rightarrow> bool \<Rightarrow> date list \<Rightarrow>
   s3obj list \<Rightarrow> (net_event list \<times> (py_exn + s3obj list)) option" where
  "collect_days head_object client bucket pfx require_success [] all_objects =
     Some ([], Inr all_objects)"
| "collect_days head_object client bucket pfx require_success (d # ds) all_objects =
     (let date_prefix = date_prefix_v2 pfx d;
          probe = HeadObject bucket (date_prefix @ ''_SUCCESS'')
      in case success_marker_exists head_object bucket date_prefix of
           Inl e \<Rightarrow> Some ([probe], Inl e)
         | Inr has_success \<Rightarrow>
             if \<not> has_success \<and> require_success then
               map_option (\<lambda>r. (probe # fst r, snd r))
                 (collect_days head_object client bucket pfx require_success ds all_objects)
             else
               (case list_objects client bucket date_prefix of
                  None \<Rightarrow> None
                | Some (evs, Inl e) \<Rightarrow> Some (probe # evs, Inl e)
                | Some (evs, Inr objs) \<Rightarrow>
                    (let day_objs = filter is_parquet objs
                     in map_option (\<lambda>r. (probe # evs @ fst r, snd r))
                          (collect_days head_object client bucket pfx require_success ds
                             (if day_objs = [] then all_objects else all_objects @ day_objs)))))"

text \<open>
  The contract of the store the collection relies on: a listing for a prefix holds
  only keys that start with the prefix.
\<close>

definition lists_under_prefix :: "lister \<Rightarrow> bool" where
  "lists_under_prefix client =
     (\<forall>pfx token resp objs. client pfx token = Inr resp \<longrightarrow> Contents resp = Some objs \<longrightarrow>
        (\<forall>obj\<in>set objs. startswith (key_get obj) pfx))"

text \<open>
  The same occurrence, seen from inside the scan: \<open>prev\<close> is the character before the
  part of the key still to be read.
\<close>

definition occurs_at :: "char option \<Rightarrow> string \<Rightarrow> nat \<Rightarrow> nat \<Rightarrow> nat \<Rightarrow> bool" where
  "occurs_at prev s y m d =
     (\<exists>pre post y3 y4 sa m1 m2 sb d1 d2.
        s = pre @ [CHR ''2'', CHR ''0'', y3, y4] @ sa @ [m1, m2] @ sb @ [d1, d2] @ post
      \<and> is_digit y3 \<and> is_digit y4 \<and> is_digit m1 \<and> is_digit m2 \<and> is_digit d1 \<and> is_digit d2
      \<and> opt_sep sa \<and> opt_sep sb
      \<and> (post = [] \<or> \<not> is_digit (hd post))
      \<and> (if pre = [] then (case prev of Some p \<Rightarrow> \<not> is_digit p | None \<Rightarrow> True)
          else \<not> is_digit (last pre))
      \<and> y = 2000 + 10 * digit_val y3 + digit_val y4
      \<and> m = 10 * digit_val m1 + digit_val m2
      \<and> d = 10 * digit_val d1 + digit_val d2)"

text \<open>
  The scenario of the spec: the bucket holds two Parquet files under the partition of
  2024-10-30, whose completion marker is there, and nothing else answers.
\<close>

definition scenario_prefix :: string where
  "scenario_prefix = ''v1/account_id=1/type=decisions/''"

definition scenario_objects :: "s3obj list" where
  "scenario_objects =
     [\<lparr>Key = Some ''v1/account_id=1/type=decisions/date=2024-10-30/a.parquet'', Size = Some 100\<rparr>,
      \<lparr>Key = Some ''v1/account_id=1/type=decisions/date=2024-10-30/b.parquet'', Size = Some 200\<rparr>]"

definition scenario_head :: "string \<Rightarrow> string \<Rightarrow> head_result" where
  "scenario_head bucket key =
     (if key = ''v1/account_id=1/type=decisions/date=2024-10-30/_SUCCESS'' then HeadOk
      else HeadRaises (ClientError ''404''))"

definition scenario_lister :: lister where
  "scenario_lister pfx token =
     Inr \<lparr>Contents = Some (filter (\<lambda>obj. startswith (key_get obj) pfx) scenario_objects),
          IsTruncated = False, NextContinuationToken = None\<rparr>"

section \<open>\<^verbatim>\<open>main\<close> of the v2 script\<close>




text \<open>
  How a run ends: \<^verbatim>\<open>sys.exit\<close> with a message (exit status 1) or with a status, an
  exception nothing catches, or a normal return.
\<close>

datatype outcome = SysExitMsg string | SysExitCode nat | Raised py_exn | Returned


type_synonym run = "net_event list \<times> outcome \<times> tstate"







section \<open>Properties of the Batch Loader\<close>






















section \<open>Properties of the Partition Locator and the Completeness Check\<close>

lemma endswith_code:
  "endswith s t = (length t \<le> length s \<and> drop (length s - length t) s = t)"
  unfolding endswith_def suffix_def
  by (metis append_eq_conv_conj append_take_drop_id diff_add_inverse2 le_add2 length_append length_drop)

lemma endswith_append [simp]: "endswith (s @ t) t"
  by (simp add: endswith_def suffix_def)

lemma endswith_append_longer: "endswith t u \<Longrightarrow> endswith (s @ t) u"
  by (auto simp: endswith_def suffix_def)

text \<open>
  C7. Whatever the bucket and the partition prefix: when the probe for the
  \<^verbatim>\<open>_SUCCESS\<close> object returns, or fails with any exception that is an
  \<^verbatim>\<open>Exception\<close> (a client error, a transport fault), \<open>success_marker_exists\<close> returns
  a boolean and raises nothing; the boolean is true exactly when the probe returned.
\<close>

theorem success_marker_exists_never_raises:
  assumes "\<forall>e. head_object bucket (date_prefix @ ''_SUCCESS'') = HeadRaises e \<longrightarrow> is_Exception e"
  shows "success_marker_exists head_object bucket date_prefix
           = Inr (head_object bucket (date_prefix @ ''_SUCCESS'') = HeadOk)"
  using assms
  by (cases "head_object bucket (date_prefix @ ''_SUCCESS'')")
     (simp_all add: success_marker_exists_def)

theorem success_marker_exists_never_raises_witness:
  "success_marker_exists
      (\<lambda>b k. if k = ''p/date=2024-10-30/_SUCCESS'' then HeadOk
              else HeadRaises (ClientError ''404''))
      ''bkt'' ''p/date=2024-10-30/'' = Inr True
   \<and> success_marker_exists
      (\<lambda>b k. if k = ''p/date=2024-10-30/_SUCCESS'' then HeadOk
              else HeadRaises (ClientError ''404''))
      ''bkt'' ''p/date=2024-10-31/'' = Inr False"
  using success_marker_exists_never_raises
          [of "\<lambda>b k. if k = ''p/date=2024-10-30/_SUCCESS'' then HeadOk
                      else HeadRaises (ClientError ''404'')" "''bkt''" "''p/date=2024-10-30/''"]
        success_marker_exists_never_raises
          [of "\<lambda>b k. if k = ''p/date=2024-10-30/_SUCCESS'' then HeadOk
                      else HeadRaises (ClientError ''404'')" "''bkt''" "''p/date=2024-10-31/''"]
  by simp

text \<open>
  C5. \<open>build_date_prefix\<close> of \<^verbatim>\<open>load_optimizely_decisions.py\<close> on a base prefix ending
  in \<^verbatim>\<open>type=decisions-rerun/\<close> with type \<^verbatim>\<open>decisions\<close>: the first block of checks
  lets it through, the older check that follows raises \<^verbatim>\<open>ValueError\<close>. The v2
  validator accepts the same prefix.
\<close>

theorem build_date_prefix_rejects_rerun:
  "build_date_prefix ''v1/account_id=1/type=decisions-rerun/'' ''decisions'' (Date 2024 10 30)
     = Inl (ValueError ''--type decisions: not type=decisions/'')
   \<and> validate_prefix_endswith ''v1/account_id=1/type=decisions-rerun/'' ''decisions'' = Inr ()
   \<and> date_prefix_v2 ''v1/account_id=1/type=decisions-rerun/'' (Date 2024 10 30)
     = ''v1/account_id=1/type=decisions-rerun/date=2024-10-30/''"
  by (simp add: build_date_prefix_def validate_prefix_endswith_def acceptable_def endswith_code
      date_prefix_v2_def isoformat_def pad2_def pad4_def digit_chr_def)

section \<open>Properties of the bucket and prefix computation\<close>

lemma endswith_trans: "endswith p m \<Longrightarrow> endswith m t \<Longrightarrow> endswith p t"
  by (auto simp: endswith_def suffix_def)

lemma acceptable_slash:
  assumes "list_ex (endswith p) acceptable"
  shows "endswith p ''/''"
proof -
  have m: "endswith ''type=decisions/'' ''/''" "endswith ''type=events/'' ''/''"
    "endswith ''type=decisions-rerun/'' ''/''"
    by (simp_all add: endswith_code)
  from assms consider "endswith p ''type=decisions/''" | "endswith p ''type=events/''"
    | "endswith p ''type=decisions-rerun/''"
    by (auto simp: acceptable_def)
  then show ?thesis
    by cases (blast intro: endswith_trans m)+
qed

lemma validate_ok:
  "validate_prefix_endswith p t = Inr u \<Longrightarrow>
     list_ex (endswith p) acceptable
   \<and> (t = ''events'' \<longrightarrow> endswith p ''type=events/'')
   \<and> (t = ''decisions'' \<longrightarrow>
        endswith p ''type=decisions/'' \<or> endswith p ''type=decisions-rerun/'')"
  by (auto simp: validate_prefix_endswith_def split: if_splits)

lemma compute_validated:
  "compute_bucket_and_prefix urlparse default_bucket args hint = Inr (bucket, pfx) \<Longrightarrow>
   validate_prefix_endswith pfx (arg_partition_type args) = Inr ()"
  by (auto simp: compute_bucket_and_prefix_def Let_def
           split: option.splits sum.splits prod.splits if_splits)

text \<open>
  C9. Every pair \<open>compute_bucket_and_prefix\<close> returns, on whichever of its three paths,
  has a prefix that ends with \<^verbatim>\<open>/\<close> and with one of the three type markers, and
  \<open>validate_prefix_endswith\<close> accepts it for the requested type (for \<^verbatim>\<open>events\<close> the
  events marker, for \<^verbatim>\<open>decisions\<close> the decisions or decisions-rerun marker). An
  explicit prefix the validator rejects, and a run with no prefix, no hint and no
  account id, end in an exception instead.
\<close>

theorem compute_bucket_and_prefix_invariant:
  "(compute_bucket_and_prefix urlparse default_bucket args hint = Inr (bucket, pfx) \<longrightarrow>
        endswith pfx ''/''
      \<and> list_ex (endswith pfx) acceptable
      \<and> validate_prefix_endswith pfx (arg_partition_type args) = Inr ()
      \<and> (arg_partition_type args = ''events'' \<longrightarrow> endswith pfx ''type=events/'')
      \<and> (arg_partition_type args = ''decisions'' \<longrightarrow>
            endswith pfx ''type=decisions/'' \<or> endswith pfx ''type=decisions-rerun/''))
   \<and> (\<forall>p e. nonempty (arg_prefix args) = Some p
          \<and> validate_prefix_endswith (if endswith p ''/'' then p else p @ ''/'')
                (arg_partition_type args) = Inl e
          \<longrightarrow> compute_bucket_and_prefix urlparse default_bucket args hint = Inl e)
   \<and> (nonempty (arg_prefix args) = None \<and> nonempty hint = None
          \<and> nonempty (arg_account_id args) = None
          \<longrightarrow> compute_bucket_and_prefix urlparse default_bucket args hint
                = Inl (RuntimeError ''Cannot determine account base prefix''))"
proof (intro conjI impI allI)
  assume r: "compute_bucket_and_prefix urlparse default_bucket args hint = Inr (bucket, pfx)"
  have v: "validate_prefix_endswith pfx (arg_partition_type args) = Inr ()"
    using r by (rule compute_validated)
  note ok = validate_ok[OF v]
  show "validate_prefix_endswith pfx (arg_partition_type args) = Inr ()" by (rule v)
  show "list_ex (endswith pfx) acceptable" using ok by blast
  show "endswith pfx ''/''" using ok acceptable_slash by blast
  show "endswith pfx ''type=events/''" if "arg_partition_type args = ''events''"
    using ok that by blast
  show "endswith pfx ''type=decisions/'' \<or> endswith pfx ''type=decisions-rerun/''"
    if "arg_partition_type args = ''decisions''"
    using ok that by blast
next
  fix p e
  assume "nonempty (arg_prefix args) = Some p
      \<and> validate_prefix_endswith (if endswith p ''/'' then p else p @ ''/'')
            (arg_partition_type args) = Inl e"
  then show "compute_bucket_and_prefix urlparse default_bucket args hint = Inl e"
    by (simp add: compute_bucket_and_prefix_def Let_def)
next
  assume "nonempty (arg_prefix args) = None \<and> nonempty hint = None
      \<and> nonempty (arg_account_id args) = None"
  then show "compute_bucket_and_prefix urlparse default_bucket args hint
      = Inl (RuntimeError ''Cannot determine account base prefix'')"
    by (simp add: compute_bucket_and_prefix_def hint_parts_def account_base_of_def nonempty_def)
qed

theorem compute_bucket_and_prefix_invariant_witness:
  "compute_bucket_and_prefix urlparse_plain ''optimizely-events-data'' default_args
       (Some ''s3://optimizely-events-data/v1/account_id=123'')
     = Inr (''optimizely-events-data'', ''v1/account_id=123/type=decisions/'')
   \<and> endswith ''v1/account_id=123/type=decisions/'' ''/''
   \<and> validate_prefix_endswith ''v1/account_id=123/type=decisions/'' ''decisions'' = Inr ()
   \<and> compute_bucket_and_prefix urlparse_plain ''optimizely-events-data''
       (default_args\<lparr>arg_prefix := Some ''v1/account_id=1/type=decisions'',
                     arg_partition_type := ''events''\<rparr>) None
     = Inl (ValueError ''--type events requires type=events/'')
   \<and> compute_bucket_and_prefix urlparse_plain ''optimizely-events-data'' default_args None
     = Inl (RuntimeError ''Cannot determine account base prefix'')"
proof -
  have run: "compute_bucket_and_prefix urlparse_plain ''optimizely-events-data'' default_args
       (Some ''s3://optimizely-events-data/v1/account_id=123'')
     = Inr (''optimizely-events-data'', ''v1/account_id=123/type=decisions/'')"
    by code_simp
  have pt: "arg_partition_type default_args = ''decisions''"
    by (simp add: default_args_def)
  have bad: "nonempty (arg_prefix (default_args\<lparr>arg_prefix := Some ''v1/account_id=1/type=decisions'',
                     arg_partition_type := ''events''\<rparr>)) = Some ''v1/account_id=1/type=decisions''
     \<and> validate_prefix_endswith (if endswith ''v1/account_id=1/type=decisions'' ''/''
           then ''v1/account_id=1/type=decisions'' else ''v1/account_id=1/type=decisions'' @ ''/'')
         (arg_partition_type (default_args\<lparr>arg_prefix := Some ''v1/account_id=1/type=decisions'',
                     arg_partition_type := ''events''\<rparr>))
       = Inl (ValueError ''--type events requires type=events/'')"
    by (simp add: nonempty_def validate_prefix_endswith_def acceptable_def endswith_code)
  have none: "nonempty (arg_prefix default_args) = None \<and> nonempty None = None
      \<and> nonempty (arg_account_id default_args) = None"
    by (simp add: default_args_def nonempty_def)
  have c1: "endswith ''v1/account_id=123/type=decisions/'' ''/''
      \<and> validate_prefix_endswith ''v1/account_id=123/type=decisions/'' ''decisions'' = Inr ()"
    using compute_bucket_and_prefix_invariant
         [of urlparse_plain "''optimizely-events-data''" default_args
             "Some ''s3://optimizely-events-data/v1/account_id=123''"
             "''optimizely-events-data''" "''v1/account_id=123/type=decisions/''",
          THEN conjunct1, rule_format, OF run]
    by (simp add: pt)
  have c2: "compute_bucket_and_prefix urlparse_plain ''optimizely-events-data''
       (default_args\<lparr>arg_prefix := Some ''v1/account_id=1/type=decisions'',
                     arg_partition_type := ''events''\<rparr>) None
     = Inl (ValueError ''--type events requires type=events/'')"
    by (rule compute_bucket_and_prefix_invariant
         [THEN conjunct2, THEN conjunct1, rule_format, OF bad])
  have c3: "compute_bucket_and_prefix urlparse_plain ''optimizely-events-data'' default_args None
     = Inl (RuntimeError ''Cannot determine account base prefix'')"
    by (rule compute_bucket_and_prefix_invariant
         [THEN conjunct2, THEN conjunct2, rule_format, OF none])
  show ?thesis
    using run c1 c2 c3 by simp
qed

section \<open>Properties of the Transfer Executor\<close>

subsection \<open>What the counters add up to\<close>

lemma transfer_one_total:
  "transfer_one hs dsz client out_dir dry_run idx key sz (c, fs) = Inr (c', fs') \<Longrightarrow>
   total c' = Suc (total c)"
  by (cases c) (auto simp: transfer_one_def total_def split: sum.splits prod.splits if_splits)

lemma extract_loop_total:
  "extract_loop lib dsz client out_dir dry_run idx objs (c, fs) = Inr (c', fs') \<Longrightarrow>
   total c' = total c + length objs"
proof (induction objs arbitrary: idx c fs)
  case Nil
  then show ?case by simp
next
  case (Cons obj rest)
  from Cons.prems obtain key c1 fs1 where
    k: "key_index obj = Inr key" and
    t: "transfer_one (human_size_extract lib) dsz client out_dir dry_run idx key (size_of obj) (c, fs) = Inr (c1, fs1)" and
    r: "extract_loop lib dsz client out_dir dry_run (idx + 1) rest (c1, fs1) = Inr (c', fs')"
    by (auto split: sum.splits)
  show ?case
    using Cons.IH[OF r] transfer_one_total[OF t] by simp
qed

lemma key_index_get: "key_index obj = Inr key \<Longrightarrow> key_get obj = key"
  by (auto simp: key_index_def key_get_def split: option.splits)

lemma download_loop_total:
  "download_loop lib dsz client out_dir dry_run idx objs (c, fs) = Inr (c', fs') \<Longrightarrow>
   total c' = total c + length (filter eligible objs)"
proof (induction objs arbitrary: idx c fs)
  case Nil
  then show ?case by simp
next
  case (Cons obj rest)
  from Cons.prems obtain key where k: "key_index obj = Inr key"
    by (auto split: sum.splits)
  note g = key_index_get[OF k]
  show ?case
  proof (cases "endswith key ''/''")
    case True
    then have "download_loop lib dsz client out_dir dry_run (idx + 1) rest (c, fs) = Inr (c', fs')"
      using Cons.prems k by simp
    from Cons.IH[OF this] show ?thesis using True g by (simp add: eligible_def)
  next
    case False
    from Cons.prems k False obtain c1 fs1 where
      t: "transfer_one (human_size lib) dsz client out_dir dry_run idx key (size_of obj) (c, fs) = Inr (c1, fs1)" and
      r: "download_loop lib dsz client out_dir dry_run (idx + 1) rest (c1, fs1) = Inr (c', fs')"
      by (auto split: sum.splits)
    show ?thesis
      using Cons.IH[OF r] transfer_one_total[OF t] False g by (simp add: eligible_def)
  qed
qed

lemma inline_loop_total:
  "inline_loop lib dsz client out_dir dry_run idx objs (c, fs) = Inr (c', fs') \<Longrightarrow>
   total c' = total c + length (filter (\<lambda>obj. eligible obj \<and> key_get obj \<noteq> []) objs)"
proof (induction objs arbitrary: idx c fs)
  case Nil
  then show ?case by simp
next
  case (Cons obj rest)
  show ?case
  proof (cases "endswith (key_get obj) ''/'' \<or> key_get obj = []")
    case True
    then have "inline_loop lib dsz client out_dir dry_run (idx + 1) rest (c, fs) = Inr (c', fs')"
      using Cons.prems by (simp add: Let_def)
    from Cons.IH[OF this] show ?thesis using True by (auto simp add: eligible_def)
  next
    case False
    from Cons.prems False obtain c1 fs1 where
      t: "transfer_one (human_size lib) dsz client out_dir dry_run idx (key_get obj) (size_of obj) (c, fs) = Inr (c1, fs1)" and
      r: "inline_loop lib dsz client out_dir dry_run (idx + 1) rest (c1, fs1) = Inr (c', fs')"
      by (auto simp: Let_def split: sum.splits)
    show ?thesis
      using Cons.IH[OF r] transfer_one_total[OF t] False by (simp add: eligible_def)
  qed
qed

subsection \<open>What \<open>makedirs\<close> does to the filesystem\<close>

















subsection \<open>The skip rule and what keeps it firing\<close>


















lemma not_dir_not_implicit: "node_at fs q \<noteq> Some Dir \<Longrightarrow> \<not> implicit_dir q"
  by (auto simp: node_at_def)












subsection \<open>Runs of the loops\<close>






lemma key_get_Some: "Key obj = Some k \<Longrightarrow> key_get obj = k"
  by (simp add: key_get_def)






text \<open>
  C1. \<open>download_objects\<close> of \<^verbatim>\<open>extract_optimizely_s3.py\<close> on a listing that holds one
  directory marker (a key ending in the separator, size 0): the marker is not
  eligible, yet the run counts it, as downloaded in a dry run and as failed in a live
  run (the download onto the directory raises). \<open>download_objects\<close> of
  \<^verbatim>\<open>load_optimizely_decisions.py\<close> passes it over and returns three zeros. The
  lemmas \<open>download_loop_total\<close> and \<open>inline_loop_total\<close> above show the equation of
  the claim for the two later scripts.
\<close>

theorem extract_counts_directory_marker:
  "counts_of (extract_download_objects scenario_lib 4096 (\<lambda>i k. Fetched 0)
      [\<lparr>Key = Some ''decision_events/2024/10/30/'', Size = Some 0\<rparr>]
      ''downloads'' True empty_fs) = Inr (1, 0, 0)
   \<and> counts_of (extract_download_objects scenario_lib 4096 (\<lambda>i k. Fetched 0)
      [\<lparr>Key = Some ''decision_events/2024/10/30/'', Size = Some 0\<rparr>]
      ''downloads'' False empty_fs) = Inr (0, 0, 1)
   \<and> length (filter eligible [\<lparr>Key = Some ''decision_events/2024/10/30/'', Size = Some 0\<rparr>]) = 0
   \<and> counts_of (download_objects scenario_lib 4096 (\<lambda>i k. Fetched 0)
      [\<lparr>Key = Some ''decision_events/2024/10/30/'', Size = Some 0\<rparr>]
      ''downloads'' True empty_fs) = Inr (0, 0, 0)"
proof (intro conjI)
  show "counts_of (extract_download_objects scenario_lib 4096 (\<lambda>i k. Fetched 0)
      [\<lparr>Key = Some ''decision_events/2024/10/30/'', Size = Some 0\<rparr>]
      ''downloads'' True empty_fs) = Inr (1, 0, 0)"
    by code_simp
  show "counts_of (extract_download_objects scenario_lib 4096 (\<lambda>i k. Fetched 0)
      [\<lparr>Key = Some ''decision_events/2024/10/30/'', Size = Some 0\<rparr>]
      ''downloads'' False empty_fs) = Inr (0, 0, 1)"
    by code_simp
  show "length (filter eligible [\<lparr>Key = Some ''decision_events/2024/10/30/'', Size = Some 0\<rparr>]) = 0"
    by (simp add: eligible_def key_get_def endswith_code)
  show "counts_of (download_objects scenario_lib 4096 (\<lambda>i k. Fetched 0)
      [\<lparr>Key = Some ''decision_events/2024/10/30/'', Size = Some 0\<rparr>]
      ''downloads'' True empty_fs) = Inr (0, 0, 0)"
    by code_simp
qed






section \<open>Properties of dates and of the per-day iteration\<close>

declare daterange_from.simps [simp del]

lemma date_less_irrefl: "\<not> date_less a a"
  by (simp add: date_less_def)

lemma date_less_trans: "date_less a b \<Longrightarrow> date_less b c \<Longrightarrow> date_less a c"
  by (auto simp: date_less_def)

lemma date_le_trans: "date_le a b \<Longrightarrow> date_le b c \<Longrightarrow> date_le a c"
  by (auto simp: date_le_def intro: date_less_trans)

lemma date_less_le_trans: "date_less a b \<Longrightarrow> date_le b c \<Longrightarrow> date_less a c"
  by (auto simp: date_le_def intro: date_less_trans)

lemma date_total: "date_le a b \<or> date_less b a"
  by (cases a; cases b) (auto simp: date_le_def date_less_def)

lemma date_less_not_le: "date_less a b \<Longrightarrow> \<not> date_le b a"
  by (auto simp: date_le_def date_less_def)

lemma date_le_antisym: "date_le a b \<Longrightarrow> date_le b a \<Longrightarrow> a = b"
  by (auto simp: date_le_def date_less_def)

lemma daterange_from_stop: "\<not> date_le d e \<Longrightarrow> daterange_from d e = ([], None)"
  by (subst daterange_from.simps) simp

lemma daterange_from_last:
  "date_le d e \<Longrightarrow> next_day d = Inl ex \<Longrightarrow> daterange_from d e = ([d], Some ex)"
  by (subst daterange_from.simps) simp

lemma daterange_from_step:
  "date_le d e \<Longrightarrow> next_day d = Inr d' \<Longrightarrow>
   daterange_from d e = (d # fst (daterange_from d' e), snd (daterange_from d' e))"
  by (subst daterange_from.simps) (simp split: prod.splits)

lemma days_in_month_pos: "1 \<le> days_in_month y m"
  by (simp add: days_in_month_def)

lemma next_day_valid:
  assumes "valid_date d" "next_day d = Inr d'"
  shows "valid_date d'" "date_less d d'"
    and "\<And>x. valid_date x \<Longrightarrow> date_less d x \<Longrightarrow> date_le d' x"
proof -
  show "valid_date d'"
    using assms days_in_month_pos[of "year d" "month d + 1"] days_in_month_pos[of "year d + 1" 1]
    by (auto simp: next_day_def valid_date_def split: if_splits)
  show "date_less d d'"
    using assms by (auto simp: next_day_def date_less_def split: if_splits)
  fix x assume x: "valid_date x" "date_less d x"
  show "date_le d' x"
  proof (cases x)
    case (Date y m dd)
    then show ?thesis
      using assms x
      by (auto simp: next_day_def valid_date_def date_less_def date_le_def split: if_splits)
  qed
qed

lemma next_day_overflow:
  assumes "valid_date d" "next_day d = Inl ex"
  shows "ex = OverflowError" "\<And>x. valid_date x \<Longrightarrow> date_le x d"
proof -
  show "ex = OverflowError" using assms by (auto simp: next_day_def split: if_splits)
  fix x assume x: "valid_date x"
  have "year d = 9999" "month d = 12" "day d = 31"
    using assms by (auto simp: next_day_def valid_date_def days_in_month_def split: if_splits)
  then show "date_le x d"
    using x by (cases x; cases d) (auto simp: valid_date_def date_le_def date_less_def days_in_month_def split: if_splits)
qed

lemma daterange_from_set:
  "valid_date d \<Longrightarrow>
   set (fst (daterange_from d e)) = {x. valid_date x \<and> date_le d x \<and> date_le x e}"
proof (induction d e rule: daterange_from.induct)
  case (1 d e)
  show ?case
  proof (cases "date_le d e")
    case False
    then have "\<And>x. date_le d x \<Longrightarrow> date_le x e \<Longrightarrow> False"
      using date_le_trans by blast
    then show ?thesis using False by (auto simp: daterange_from_stop)
  next
    case le: True
    show ?thesis
    proof (cases "next_day d")
      case (Inl ex)
      have "{x. valid_date x \<and> date_le d x \<and> date_le x e} = {d}"
      proof (rule set_eqI, rule iffI)
        fix x assume "x \<in> {x. valid_date x \<and> date_le d x \<and> date_le x e}"
        then have "valid_date x" "date_le d x" by simp_all
        moreover have "date_le x d" using next_day_overflow(2)[OF 1(2) Inl] calculation(1) .
        ultimately show "x \<in> {d}"
          by (auto dest: date_le_antisym)
      next
        fix x assume "x \<in> {d}"
        then show "x \<in> {x. valid_date x \<and> date_le d x \<and> date_le x e}"
          using 1(2) le by (simp add: date_le_def)
      qed
      then show ?thesis using le Inl by (simp add: daterange_from_last)
    next
      case (Inr d')
      note nv = next_day_valid[OF 1(2) Inr]
      have ih: "set (fst (daterange_from d' e)) = {x. valid_date x \<and> date_le d' x \<and> date_le x e}"
        using 1(1)[OF le Inr nv(1)] .
      have "{x. valid_date x \<and> date_le d x \<and> date_le x e}
            = insert d {x. valid_date x \<and> date_le d' x \<and> date_le x e}"
      proof (rule set_eqI, rule iffI)
        fix x assume "x \<in> {x. valid_date x \<and> date_le d x \<and> date_le x e}"
        then have x: "valid_date x" "date_le d x" "date_le x e" by simp_all
        show "x \<in> insert d {x. valid_date x \<and> date_le d' x \<and> date_le x e}"
        proof (cases "x = d")
          case True then show ?thesis by simp
        next
          case False
          then have "date_less d x" using x(2) by (simp add: date_le_def)
          from nv(3)[OF x(1) this] x show ?thesis by simp
        qed
      next
        fix x assume "x \<in> insert d {x. valid_date x \<and> date_le d' x \<and> date_le x e}"
        then consider "x = d" | "valid_date x" "date_le d' x" "date_le x e" by auto
        then show "x \<in> {x. valid_date x \<and> date_le d x \<and> date_le x e}"
        proof cases
          case 1 then show ?thesis using \<open>valid_date d\<close> le by (simp add: date_le_def)
        next
          case 2
          have "date_less d x" using nv(2) 2(2) by (rule date_less_le_trans)
          then show ?thesis using 2 by (simp add: date_le_def)
        qed
      qed
      then show ?thesis using le Inr ih
        by (simp add: daterange_from_step)
    qed
  qed
qed

lemma daterange_from_sorted:
  "valid_date d \<Longrightarrow> sorted_wrt date_less (fst (daterange_from d e))"
proof (induction d e rule: daterange_from.induct)
  case (1 d e)
  show ?case
  proof (cases "date_le d e")
    case False
    then show ?thesis by (simp add: daterange_from_stop)
  next
    case le: True
    show ?thesis
    proof (cases "next_day d")
      case (Inl ex)
      then show ?thesis using le by (simp add: daterange_from_last)
    next
      case (Inr d')
      note nv = next_day_valid[OF 1(2) Inr]
      have ih: "sorted_wrt date_less (fst (daterange_from d' e))"
        using 1(1)[OF le Inr nv(1)] .
      have "\<forall>x\<in>set (fst (daterange_from d' e)). date_less d x"
        using daterange_from_set[OF nv(1), of e] nv(2) by (auto intro: date_less_le_trans)
      then show ?thesis using le Inr ih
        by (simp add: daterange_from_step)
    qed
  qed
qed

lemma daterange_from_overflow:
  "valid_date d \<Longrightarrow> valid_date e \<Longrightarrow>
   snd (daterange_from d e) = (if date_le d e \<and> e = Date 9999 12 31 then Some OverflowError else None)"
proof (induction d e rule: daterange_from.induct)
  case (1 d e)
  show ?case
  proof (cases "date_le d e")
    case False
    then show ?thesis by (simp add: daterange_from_stop)
  next
    case le: True
    show ?thesis
    proof (cases "next_day d")
      case (Inl ex)
      have "date_le e d" using next_day_overflow(2)[OF 1(2) Inl 1(3)] .
      then have "e = d" using le by (auto dest: date_le_antisym)
      moreover have "d = Date 9999 12 31"
        using Inl 1(2) by (cases d) (auto simp: next_day_def valid_date_def days_in_month_def split: if_splits)
      ultimately show ?thesis using le Inl next_day_overflow(1)[OF 1(2) Inl]
        by (simp add: daterange_from_last)
    next
      case (Inr d')
      note nv = next_day_valid[OF 1(2) Inr]
      have ih: "snd (daterange_from d' e) = (if date_le d' e \<and> e = Date 9999 12 31 then Some OverflowError else None)"
        using 1(1)[OF le Inr nv(1) 1(3)] .
      have "date_le d' e" if "e = Date 9999 12 31"
        using nv(1) that by (cases d') (auto simp: valid_date_def date_le_def date_less_def days_in_month_def split: if_splits)
      then show ?thesis using le Inr ih
        by (auto simp: daterange_from_step)
    qed
  qed
qed

lemma digit_chr_inj: "digit_chr a = digit_chr b \<Longrightarrow> a mod 10 = b mod 10"
proof -
  assume e: "digit_chr a = digit_chr b"
  have d: "distinct ''0123456789''" by simp
  have "a mod 10 < length ''0123456789''" "b mod 10 < length ''0123456789''" by simp_all
  from nth_eq_iff_index_eq[OF d this] e show ?thesis by (simp add: digit_chr_def)
qed

lemma div_mod_10_eq:
  fixes x y :: nat
  assumes "x div 10 = y div 10" "x mod 10 = y mod 10"
  shows "x = y"
proof -
  have "x = 10 * (x div 10) + x mod 10" "y = 10 * (y div 10) + y mod 10" by simp_all
  then show ?thesis using assms by (simp only:)
qed

lemma pad2_inj: "a < 100 \<Longrightarrow> b < 100 \<Longrightarrow> pad2 a = pad2 b \<Longrightarrow> a = b"
proof -
  assume ab: "a < 100" "b < 100" and e: "pad2 a = pad2 b"
  then have h: "(a div 10) mod 10 = (b div 10) mod 10" "a mod 10 = b mod 10"
    by (auto simp: pad2_def dest: digit_chr_inj)
  have "a div 10 < 10" "b div 10 < 10" using ab by simp_all
  then have "a div 10 = b div 10" using h(1) by simp
  then show ?thesis using h(2) by (rule div_mod_10_eq)
qed

lemma pad4_inj: "a < 10000 \<Longrightarrow> b < 10000 \<Longrightarrow> pad4 a = pad4 b \<Longrightarrow> a = b"
proof -
  assume ab: "a < 10000" "b < 10000" and e: "pad4 a = pad4 b"
  then have h: "(a div 1000) mod 10 = (b div 1000) mod 10" "(a div 100) mod 10 = (b div 100) mod 10"
    "(a div 10) mod 10 = (b div 10) mod 10" "a mod 10 = b mod 10"
    by (auto simp: pad4_def dest: digit_chr_inj)
  have d: "x div 100 = x div 10 div 10" "x div 1000 = x div 10 div 10 div 10" for x :: nat
    by (simp_all add: div_mult2_eq[symmetric])
  have "a div 1000 < 10" "b div 1000 < 10" using ab by simp_all
  then have 1: "a div 10 div 10 div 10 = b div 10 div 10 div 10" using h(1) by (simp add: d)
  have 2: "a div 10 div 10 = b div 10 div 10"
    using 1 h(2) unfolding d by (rule div_mod_10_eq)
  have 3: "a div 10 = b div 10"
    using 2 h(3) by (rule div_mod_10_eq)
  show ?thesis using 3 h(4) by (rule div_mod_10_eq)
qed

lemma isoformat_length: "length (isoformat d) = 10"
  by (simp add: isoformat_def pad2_def pad4_def)

lemma days_in_month_le: "days_in_month y m \<le> 31"
  by (simp add: days_in_month_def)

lemma isoformat_inj:
  assumes "valid_date a" "valid_date b" "isoformat a = isoformat b"
  shows "a = b"
proof -
  have la: "year a < 10000" "month a < 100" "day a < 100"
    using assms(1) days_in_month_le[of "year a" "month a"] by (auto simp: valid_date_def)
  have lb: "year b < 10000" "month b < 100" "day b < 100"
    using assms(2) days_in_month_le[of "year b" "month b"] by (auto simp: valid_date_def)
  from assms(3) have "pad4 (year a) = pad4 (year b)" "pad2 (month a) = pad2 (month b)"
    "pad2 (day a) = pad2 (day b)"
    by (simp_all add: isoformat_def pad4_def pad2_def)
  then have "year a = year b" "month a = month b" "day a = day b"
    using la lb by (auto dest: pad4_inj pad2_inj)
  then show ?thesis by (cases a; cases b) simp
qed

lemma date_prefix_disjoint:
  assumes "valid_date a" "valid_date b"
    and "startswith key (date_prefix_v2 pfx a)" "startswith key (date_prefix_v2 pfx b)"
  shows "a = b"
proof -
  from assms(3) obtain r1 where k1: "key = date_prefix_v2 pfx a @ r1"
    by (auto simp: startswith_def prefix_def)
  from assms(4) obtain r2 where k2: "key = date_prefix_v2 pfx b @ r2"
    by (auto simp: startswith_def prefix_def)
  have "isoformat a @ (''/'' @ r1) = isoformat b @ (''/'' @ r2)"
    using k1 k2 by (simp add: date_prefix_v2_def)
  moreover have "length (isoformat a) = length (isoformat b)"
    by (simp only: isoformat_length)
  ultimately have "isoformat a = isoformat b"
    using append_eq_append_conv[of "isoformat a" "isoformat b" "''/'' @ r1" "''/'' @ r2"] by blast
  then show ?thesis using assms(1,2) by (rule isoformat_inj[rotated 2])
qed

section \<open>Properties of the enumeration and of the date heuristic\<close>

lemmas list_pages_induct = list_pages.raw_induct[rotated 1, consumes 1, case_names step]

lemma list_pages_under:
  "list_pages client bucket pfx token = Some r \<Longrightarrow> lists_under_prefix client \<Longrightarrow>
   \<forall>objs. snd r = Inr objs \<longrightarrow> (\<forall>obj\<in>set objs. startswith (key_get obj) pfx)"
proof (induction rule: list_pages_induct)
  case (step lp client bucket pfx token r)
  have c': "lists_under_prefix client" using step by blast
  show ?case
  proof (cases "client pfx (nonempty token)")
    case (Inl e)
    then show ?thesis using step(2) by auto
  next
    case (Inr resp)
    have here: "\<forall>obj\<in>set (case Contents resp of Some c \<Rightarrow> c | None \<Rightarrow> []). startswith (key_get obj) pfx"
    proof (cases "Contents resp")
      case None
      then show ?thesis by simp
    next
      case (Some objs)
      then show ?thesis using c' Inr unfolding lists_under_prefix_def by auto
    qed
    show ?thesis
    proof (cases "IsTruncated resp")
      case False
      then show ?thesis using step(2) Inr here by auto
    next
      case True
      then obtain r' where
        r': "lp client bucket pfx (NextContinuationToken resp) = Some r'" and
        r: "r = (ListObjectsV2 bucket pfx (nonempty token) # fst r',
                 case snd r' of Inl e \<Rightarrow> Inl e
                 | Inr rest \<Rightarrow> Inr ((case Contents resp of Some c \<Rightarrow> c | None \<Rightarrow> []) @ rest))"
        using step(2) Inr by (auto simp: bind_eq_Some_conv)
      from step(1)[OF r' c'] here show ?thesis
        unfolding r by (auto split: sum.splits)
    qed
  qed
qed

lemma collect_days_under:
  assumes c: "lists_under_prefix client"
  shows "collect_days head_object client bucket pfx rs ds acc = Some (evs, Inr coll) \<Longrightarrow>
         \<forall>obj\<in>set coll. obj \<in> set acc \<or>
            (is_parquet obj \<and> (\<exists>d\<in>set ds. startswith (key_get obj) (date_prefix_v2 pfx d)))"
proof (induction ds arbitrary: acc evs)
  case Nil
  then show ?case by simp
next
  case (Cons d ds)
  let ?dp = "date_prefix_v2 pfx d"
  show ?case
  proof (cases "success_marker_exists head_object bucket ?dp")
    case (Inl e)
    then show ?thesis using Cons.prems by (simp add: Let_def)
  next
    case (Inr has)
    show ?thesis
    proof (cases "\<not> has \<and> rs")
      case True
      then obtain evs' where "collect_days head_object client bucket pfx rs ds acc = Some (evs', Inr coll)"
        using Cons.prems Inr by (auto simp: Let_def)
      from Cons.IH[OF this] show ?thesis by auto
    next
      case False
      show ?thesis
      proof (cases "list_objects client bucket ?dp")
        case None
        then show ?thesis using Cons.prems Inr False by (simp add: Let_def)
      next
        case (Some lr)
        obtain levs res where lr: "lr = (levs, res)" by (cases lr)
        show ?thesis
        proof (cases res)
          case (Inl e)
          then show ?thesis using Cons.prems Inr False Some lr by (simp add: Let_def)
        next
          case (Inr objs)
          have under: "\<forall>obj\<in>set objs. startswith (key_get obj) ?dp"
            using list_pages_under[OF Some[unfolded list_objects_def] c] lr Inr by simp
          let ?acc = "if filter is_parquet objs = [] then acc else acc @ filter is_parquet objs"
          obtain evs' where "collect_days head_object client bucket pfx rs ds ?acc = Some (evs', Inr coll)"
            using Cons.prems \<open>success_marker_exists head_object bucket ?dp = Inr has\<close> False Some lr Inr
            by (auto simp: Let_def)
          from Cons.IH[OF this] under show ?thesis
            by (auto split: if_splits)
        qed
      qed
    qed
  qed
qed

lemma skip_sep_opt: "\<exists>sa. s = sa @ skip_sep s \<and> opt_sep sa"
proof (cases s)
  case Nil
  then show ?thesis by (simp add: skip_sep_def opt_sep_def)
next
  case (Cons c r)
  show ?thesis
  proof (cases "is_sep c")
    case True
    then have "s = [c] @ skip_sep s \<and> opt_sep [c]"
      using Cons by (simp add: skip_sep_def opt_sep_def)
    then show ?thesis by blast
  next
    case False
    then have "s = [] @ skip_sep s \<and> opt_sep []"
      using Cons by (simp add: skip_sep_def opt_sep_def)
    then show ?thesis by blast
  qed
qed

lemma match_date_at_Some:
  assumes "match_date_at prev s = Some ((y, m, d), n)"
  shows "\<exists>y3 y4 sa m1 m2 sb d1 d2 post.
           s = [CHR ''2'', CHR ''0'', y3, y4] @ sa @ [m1, m2] @ sb @ [d1, d2] @ post
         \<and> is_digit y3 \<and> is_digit y4 \<and> is_digit m1 \<and> is_digit m2 \<and> is_digit d1 \<and> is_digit d2
         \<and> opt_sep sa \<and> opt_sep sb
         \<and> (post = [] \<or> \<not> is_digit (hd post))
         \<and> (case prev of Some p \<Rightarrow> \<not> is_digit p | None \<Rightarrow> True)
         \<and> y = 2000 + 10 * digit_val y3 + digit_val y4
         \<and> m = 10 * digit_val m1 + digit_val m2
         \<and> d = 10 * digit_val d1 + digit_val d2"
proof -
  from assms have pv: "case prev of Some p \<Rightarrow> \<not> is_digit p | None \<Rightarrow> True"
    by (auto simp: match_date_at_def split: option.splits if_splits)
  from assms pv obtain y3 y4 r1 where
    s: "s = CHR ''2'' # CHR ''0'' # y3 # y4 # r1" and dy: "is_digit y3" "is_digit y4"
    by (auto simp: match_date_at_def split: option.splits if_splits list.splits)
  from assms pv s dy obtain m1 m2 r3 where
    r1: "skip_sep r1 = m1 # m2 # r3" and dm: "m1 = CHR ''0'' \<or> m1 = CHR ''1''" "is_digit m2"
    by (auto simp: match_date_at_def split: option.splits if_splits list.splits)
  from assms pv s dy r1 dm obtain d1 d2 r5 where
    r3: "skip_sep r3 = d1 # d2 # r5" and dd: "d1 \<in> set ''0123''" "is_digit d2"
    and la: "case r5 of c # _ \<Rightarrow> \<not> is_digit c | [] \<Rightarrow> True"
    and ymd: "y = 2000 + 10 * digit_val y3 + digit_val y4" "m = 10 * digit_val m1 + digit_val m2"
      "d = 10 * digit_val d1 + digit_val d2"
    by (auto simp: match_date_at_def split: option.splits if_splits list.splits)
  from skip_sep_opt[of r1] obtain sa where sa: "r1 = sa @ skip_sep r1" "opt_sep sa" by blast
  from skip_sep_opt[of r3] obtain sb where sb: "r3 = sb @ skip_sep r3" "opt_sep sb" by blast
  have e: "s = [CHR ''2'', CHR ''0'', y3, y4] @ sa @ [m1, m2] @ sb @ [d1, d2] @ r5"
    using s sa(1) sb(1) r1 r3 by simp
  have dg: "is_digit m1" "is_digit d1"
    using dm(1) dd(1) by (auto simp: is_digit_def)
  have po: "r5 = [] \<or> \<not> is_digit (hd r5)"
    using la by (cases r5) simp_all
  show ?thesis
    using e dy dg dm(2) dd(2) sa(2) sb(2) po pv ymd by blast
qed

lemma occurs_at_head:
  "match_date_at prev s = Some ((y, m, d), n) \<Longrightarrow> occurs_at prev s y m d"
proof -
  assume "match_date_at prev s = Some ((y, m, d), n)"
  from match_date_at_Some[OF this] obtain y3 y4 sa m1 m2 sb d1 d2 post where
    h: "s = [] @ [CHR ''2'', CHR ''0'', y3, y4] @ sa @ [m1, m2] @ sb @ [d1, d2] @ post"
       "is_digit y3" "is_digit y4" "is_digit m1" "is_digit m2" "is_digit d1" "is_digit d2"
       "opt_sep sa" "opt_sep sb" "post = [] \<or> \<not> is_digit (hd post)"
       "case prev of Some p \<Rightarrow> \<not> is_digit p | None \<Rightarrow> True"
       "y = 2000 + 10 * digit_val y3 + digit_val y4" "m = 10 * digit_val m1 + digit_val m2"
       "d = 10 * digit_val d1 + digit_val d2"
    by auto
  have "if ([]::string) = [] then (case prev of Some p \<Rightarrow> \<not> is_digit p | None \<Rightarrow> True)
        else \<not> is_digit (last [])"
    using h(11) by simp
  with h show ?thesis unfolding occurs_at_def by blast
qed

lemma occurs_at_Cons:
  "occurs_at (Some c) cs y m d \<Longrightarrow> occurs_at prev (c # cs) y m d"
proof -
  assume "occurs_at (Some c) cs y m d"
  then obtain pre post y3 y4 sa m1 m2 sb d1 d2 where
    h: "cs = pre @ [CHR ''2'', CHR ''0'', y3, y4] @ sa @ [m1, m2] @ sb @ [d1, d2] @ post"
       "is_digit y3" "is_digit y4" "is_digit m1" "is_digit m2" "is_digit d1" "is_digit d2"
       "opt_sep sa" "opt_sep sb" "post = [] \<or> \<not> is_digit (hd post)"
       "if pre = [] then (case Some c of Some p \<Rightarrow> \<not> is_digit p | None \<Rightarrow> True)
        else \<not> is_digit (last pre)"
       "y = 2000 + 10 * digit_val y3 + digit_val y4" "m = 10 * digit_val m1 + digit_val m2"
       "d = 10 * digit_val d1 + digit_val d2"
    unfolding occurs_at_def by blast
  have e: "c # cs = (c # pre) @ [CHR ''2'', CHR ''0'', y3, y4] @ sa @ [m1, m2] @ sb @ [d1, d2] @ post"
    using h(1) by simp
  have b: "if c # pre = [] then (case prev of Some p \<Rightarrow> \<not> is_digit p | None \<Rightarrow> True)
        else \<not> is_digit (last (c # pre))"
    using h(11) by (cases "pre = []") simp_all
  show ?thesis
    unfolding occurs_at_def using e b h(2-10) h(12-14) by blast
qed

lemma find_dates_occurs:
  "(y, m, d) \<in> set (find_dates prev skip s) \<Longrightarrow> occurs_at prev s y m d"
proof (induction s arbitrary: prev skip)
  case Nil
  then show ?case by simp
next
  case (Cons c cs)
  show ?case
  proof (cases "0 < skip")
    case True
    then have "(y, m, d) \<in> set (find_dates (Some c) (skip - 1) cs)"
      using Cons.prems by simp
    from Cons.IH[OF this] show ?thesis by (rule occurs_at_Cons)
  next
    case False
    show ?thesis
    proof (cases "match_date_at prev (c # cs)")
      case None
      then have "(y, m, d) \<in> set (find_dates (Some c) 0 cs)"
        using Cons.prems False by simp
      from Cons.IH[OF this] show ?thesis by (rule occurs_at_Cons)
    next
      case (Some r)
      obtain ymd n where r: "r = (ymd, n)" by (cases r)
      from Cons.prems False Some r
      consider "ymd = (y, m, d)" | "(y, m, d) \<in> set (find_dates (Some c) (n - 1) cs)"
        by auto
      then show ?thesis
      proof cases
        case 1
        then show ?thesis using Some r occurs_at_head by blast
      next
        case 2
        from Cons.IH[OF this] show ?thesis by (rule occurs_at_Cons)
      qed
    qed
  qed
qed

lemma occurs_at_date_in_key:
  "occurs_at None key y m d \<Longrightarrow> date_in_key key (Date y m d)"
proof -
  assume "occurs_at None key y m d"
  then obtain pre post y3 y4 sa m1 m2 sb d1 d2 where
    h: "key = pre @ [CHR ''2'', CHR ''0'', y3, y4] @ sa @ [m1, m2] @ sb @ [d1, d2] @ post"
       "is_digit y3" "is_digit y4" "is_digit m1" "is_digit m2" "is_digit d1" "is_digit d2"
       "opt_sep sa" "opt_sep sb" "post = [] \<or> \<not> is_digit (hd post)"
       "if pre = [] then (case None :: char option of Some p \<Rightarrow> \<not> is_digit p | None \<Rightarrow> True)
        else \<not> is_digit (last pre)"
       "y = 2000 + 10 * digit_val y3 + digit_val y4" "m = 10 * digit_val m1 + digit_val m2"
       "d = 10 * digit_val d1 + digit_val d2"
    unfolding occurs_at_def by blast
  have b: "pre = [] \<or> \<not> is_digit (last pre)"
    using h(11) by (cases "pre = []") simp_all
  have n: "year (Date y m d) = 2000 + 10 * digit_val y3 + digit_val y4"
    "month (Date y m d) = 10 * digit_val m1 + digit_val m2"
    "day (Date y m d) = 10 * digit_val d1 + digit_val d2"
    using h(12-14) by simp_all
  show ?thesis
    unfolding date_in_key_def using h(1-10) b n by blast
qed

lemma key_has_date_in_range_sound:
  assumes "key_has_date_in_range key start end_date"
  shows "\<exists>dt. valid_date dt \<and> date_le start dt \<and> date_le dt end_date \<and> date_in_key key dt"
proof -
  from assms obtain ymd where
    i: "ymd \<in> set (find_dates None 0 key)" and
    c: "(case ymd of (y, m, d) \<Rightarrow> case py_date y m d of
                              Inl e \<Rightarrow> False
                            | Inr found \<Rightarrow> date_le start found \<and> date_le found end_date)"
    unfolding key_has_date_in_range_def list_ex_iff by blast
  obtain y m d where ymd: "ymd = (y, m, d)" by (cases ymd)
  from c ymd obtain found where
    p: "py_date y m d = Inr found" and r: "date_le start found" "date_le found end_date"
    by (cases "py_date y m d") simp_all
  from p have f: "found = Date y m d" "valid_date found"
    by (auto simp: py_date_def split: if_splits)
  from find_dates_occurs[OF i[unfolded ymd]] have "date_in_key key found"
    unfolding f(1) by (rule occurs_at_date_in_key)
  with f r show ?thesis by blast
qed

text \<open>
  C3. For valid dates \<open>start\<close> and \<open>end_date\<close>: the generator yields exactly the valid
  dates from \<open>start\<close> to \<open>end_date\<close>, in ascending order. With a store that lists
  under a prefix only keys that start with it, the collection the per-day loop of the
  v2 script builds holds no object under the partition prefix of any date before
  \<open>start\<close> or after \<open>end_date\<close>. The heuristic of the first script accepts a key
  only if some date written in the key, in the sense of the spec, lies within the
  range.
\<close>

theorem sync_engine_date_range:
  assumes "valid_date start" "valid_date end_date"
  shows "set (fst (daterange start end_date))
           = {d. valid_date d \<and> date_le start d \<and> date_le d end_date}
       \<and> sorted_wrt date_less (fst (daterange start end_date))
       \<and> (lists_under_prefix client
            \<and> collect_days head_object client bucket pfx rs (fst (daterange start end_date)) []
                = Some (evs, Inr all_objects)
          \<longrightarrow> (\<forall>d. valid_date d \<and> (date_less d start \<or> date_less end_date d) \<longrightarrow>
                 (\<forall>obj\<in>set all_objects. \<not> startswith (key_get obj) (date_prefix_v2 pfx d))))
       \<and> (key_has_date_in_range key start end_date
          \<longrightarrow> (\<exists>dt. valid_date dt \<and> date_le start dt \<and> date_le dt end_date
                   \<and> date_in_key key dt))"
proof (intro conjI impI allI ballI)
  show s: "set (fst (daterange start end_date))
           = {d. valid_date d \<and> date_le start d \<and> date_le d end_date}"
    unfolding daterange_def by (rule daterange_from_set[OF assms(1)])
  show "sorted_wrt date_less (fst (daterange start end_date))"
    unfolding daterange_def by (rule daterange_from_sorted[OF assms(1)])
  show "\<exists>dt. valid_date dt \<and> date_le start dt \<and> date_le dt end_date \<and> date_in_key key dt"
    if "key_has_date_in_range key start end_date"
    using that by (rule key_has_date_in_range_sound)
  fix d obj
  assume a: "lists_under_prefix client
            \<and> collect_days head_object client bucket pfx rs (fst (daterange start end_date)) []
                = Some (evs, Inr all_objects)"
    and d: "valid_date d \<and> (date_less d start \<or> date_less end_date d)"
    and i: "obj \<in> set all_objects"
  from collect_days_under[of client head_object bucket pfx rs _ "[]" evs all_objects] a i
  obtain d0 where d0: "d0 \<in> set (fst (daterange start end_date))"
    "startswith (key_get obj) (date_prefix_v2 pfx d0)"
    by auto
  from d0(1) have v0: "valid_date d0" "date_le start d0" "date_le d0 end_date"
    unfolding s by simp_all
  show "\<not> startswith (key_get obj) (date_prefix_v2 pfx d)"
  proof
    assume "startswith (key_get obj) (date_prefix_v2 pfx d)"
    with d0(2) v0(1) d have "d0 = d" by (auto dest: date_prefix_disjoint)
    with v0 d show False by (auto dest: date_less_not_le)
  qed
qed

text \<open>The scenario of the spec, evaluated.\<close>

lemma scenario_lists_under: "lists_under_prefix scenario_lister"
  by (auto simp: lists_under_prefix_def scenario_lister_def)

lemma scenario_dates:
  "fst (daterange (Date 2024 10 30) (Date 2024 10 31)) = [Date 2024 10 30, Date 2024 10 31]"
  by code_simp

lemma scenario_list_objects:
  "list_objects scenario_lister bucket pfx
   = Some ([ListObjectsV2 bucket pfx None],
           Inr (filter (\<lambda>obj. startswith (key_get obj) pfx) scenario_objects))"
  unfolding list_objects_def
  by (subst list_pages.simps) (simp add: scenario_lister_def nonempty_def)

lemma scenario_day30:
  "filter (\<lambda>obj. startswith (key_get obj) (date_prefix_v2 scenario_prefix (Date 2024 10 30)))
     scenario_objects = scenario_objects"
  by code_simp

lemma scenario_parquet: "filter is_parquet scenario_objects = scenario_objects"
  by (simp add: scenario_objects_def is_parquet_def key_get_def endswith_code)

lemma scenario_marker:
  "success_marker_exists scenario_head bucket (date_prefix_v2 scenario_prefix (Date 2024 10 30))
     = Inr True"
  "success_marker_exists scenario_head bucket (date_prefix_v2 scenario_prefix (Date 2024 10 31))
     = Inr False"
  by code_simp+

lemma scenario_collect:
  "collect_days scenario_head scenario_lister bucket scenario_prefix True
     [Date 2024 10 30, Date 2024 10 31] []
   = Some ([HeadObject bucket (date_prefix_v2 scenario_prefix (Date 2024 10 30) @ ''_SUCCESS''),
            ListObjectsV2 bucket (date_prefix_v2 scenario_prefix (Date 2024 10 30)) None,
            HeadObject bucket (date_prefix_v2 scenario_prefix (Date 2024 10 31) @ ''_SUCCESS'')],
           Inr scenario_objects)"
proof -
  have ne: "scenario_objects \<noteq> []" by (simp add: scenario_objects_def)
  show ?thesis
    by (simp add: Let_def scenario_marker scenario_list_objects scenario_day30 scenario_parquet ne)
qed

theorem sync_engine_date_range_witness:
  "fst (daterange (Date 2024 10 30) (Date 2024 10 31)) = [Date 2024 10 30, Date 2024 10 31]
   \<and> collect_days scenario_head scenario_lister ''optimizely-events-data'' scenario_prefix True
       (fst (daterange (Date 2024 10 30) (Date 2024 10 31))) []
     = Some ([HeadObject ''optimizely-events-data''
                (date_prefix_v2 scenario_prefix (Date 2024 10 30) @ ''_SUCCESS''),
              ListObjectsV2 ''optimizely-events-data''
                (date_prefix_v2 scenario_prefix (Date 2024 10 30)) None,
              HeadObject ''optimizely-events-data''
                (date_prefix_v2 scenario_prefix (Date 2024 10 31) @ ''_SUCCESS'')],
             Inr scenario_objects)
   \<and> \<not> list_ex (\<lambda>obj. startswith (key_get obj) (date_prefix_v2 scenario_prefix (Date 2024 11 1)))
         scenario_objects
   \<and> Date 2024 11 1 \<notin> set (fst (daterange (Date 2024 10 30) (Date 2024 10 31)))
   \<and> key_has_date_in_range ''decision_events/2024/10/30/part-0.json''
         (Date 2024 10 30) (Date 2024 10 31)
   \<and> (\<exists>dt. valid_date dt \<and> date_le (Date 2024 10 30) dt \<and> date_le dt (Date 2024 10 31)
         \<and> date_in_key ''decision_events/2024/10/30/part-0.json'' dt)"
proof -
  have v: "valid_date (Date 2024 10 30)" "valid_date (Date 2024 10 31)" "valid_date (Date 2024 11 1)"
    by (simp_all add: valid_date_def days_in_month_def)
  have out: "date_less (Date 2024 10 31) (Date 2024 11 1)"
    by (simp add: date_less_def)
  have k: "key_has_date_in_range ''decision_events/2024/10/30/part-0.json''
         (Date 2024 10 30) (Date 2024 10 31)"
    by code_simp
  note c = scenario_collect[of "''optimizely-events-data''", folded scenario_dates]
  note t = sync_engine_date_range[OF v(1,2), of scenario_lister scenario_head
      "''optimizely-events-data''" scenario_prefix True _ scenario_objects
      "''decision_events/2024/10/30/part-0.json''"]
  from t have s: "set (fst (daterange (Date 2024 10 30) (Date 2024 10 31)))
      = {d. valid_date d \<and> date_le (Date 2024 10 30) d \<and> date_le d (Date 2024 10 31)}"
    by blast
  have n: "Date 2024 11 1 \<notin> set (fst (daterange (Date 2024 10 30) (Date 2024 10 31)))"
    unfolding s using out by (auto dest: date_less_not_le)
  from t[THEN conjunct2, THEN conjunct2, THEN conjunct1, rule_format,
         OF conjI[OF scenario_lists_under c] conjI[OF v(3) disjI2[OF out]]]
  have o: "\<not> list_ex (\<lambda>obj. startswith (key_get obj) (date_prefix_v2 scenario_prefix (Date 2024 11 1)))
         scenario_objects"
    unfolding list_ex_iff by blast
  from t[THEN conjunct2, THEN conjunct2, THEN conjunct2, rule_format, OF k]
  have e: "\<exists>dt. valid_date dt \<and> date_le (Date 2024 10 30) dt \<and> date_le dt (Date 2024 10 31)
         \<and> date_in_key ''decision_events/2024/10/30/part-0.json'' dt" .
  show ?thesis
    using scenario_dates c n o k e by blast
qed

section \<open>Properties of \<^verbatim>\<open>main\<close> of the v2 script\<close>








text \<open>
  The keys the v2 loop is handed end in \<^verbatim>\<open>.parquet\<close>: each is eligible and not
  empty, so the loop counts every one of them.
\<close>

lemma is_parquet_eligible: "is_parquet obj \<Longrightarrow> eligible obj \<and> key_get obj \<noteq> []"
proof -
  assume "is_parquet obj"
  then obtain zs where k: "key_get obj = zs @ ''.parquet''"
    by (auto simp: is_parquet_def endswith_def suffix_def)
  then have "last (key_get obj) = CHR ''t''" by simp
  moreover have "last (key_get obj) = CHR ''/''" if "endswith (key_get obj) ''/''"
    using that by (auto simp: endswith_def suffix_def)
  ultimately show ?thesis using k by (auto simp: eligible_def)
qed

lemma inline_transfer_counts_all:
  assumes "inline_transfer lib dsz client objs out dr fs = Inr (c, fs')"
    and "\<forall>obj\<in>set objs. is_parquet obj"
  shows "total c = length objs"
proof -
  have "filter (\<lambda>obj. eligible obj \<and> key_get obj \<noteq> []) objs = objs"
    using assms(2) is_parquet_eligible by (simp add: filter_id_conv)
  with inline_loop_total[OF assms(1)[unfolded inline_transfer_def]] show ?thesis
    by (simp add: total_def)
qed

end
